theory Spec2Isabelle
  imports Main "HOL-Library.AList" "HOL-Library.Sublist" "HOL-Library.Log_Nat"
begin

section \<open>Exceptions, the resolver client and observable effects\<close>

text \<open>
  The module \<^verbatim>\<open>data_structures.py\<close> raises or lets through five kinds of Python
  exception: \<^verbatim>\<open>aiodns.error.DNSError\<close> from a query (caught in \<^verbatim>\<open>Host.resolve\<close>),
  \<^verbatim>\<open>KeyError\<close> from indexing a raw record, \<^verbatim>\<open>ZeroDivisionError\<close> and
  \<^verbatim>\<open>OverflowError\<close> from the true division of two ints, and \<^verbatim>\<open>AttributeError\<close> from
  reading \<^verbatim>\<open>.name\<close> of a missing country. Any other exception a collaborator may raise is \<open>OtherError\<close>;
  no handler of the module catches it.
\<close>

datatype exception =
    DNSError nat
  | KeyError string
  | ZeroDivisionError
  | OverflowError
  | AttributeError string
  | OtherError string

fun is_DNSError :: "exception \<Rightarrow> bool" where
  "is_DNSError (DNSError _) = True"
| "is_DNSError _ = False"

datatype rrtype = A_record | AAAA_record

record dns_result =
  host :: string
  ttl :: int

text \<open>
  \<^verbatim>\<open>resolver.query(name, type)\<close>: a result list, or an exception. The answer is a function
  of the name and the record type.
\<close>

type_synonym DNSResolver = "string \<Rightarrow> rrtype \<Rightarrow> exception + dns_result list"

text \<open>
  The calls the module makes on its collaborators, in the order it makes them: queries,
  the two logging calls, the four counting methods of \<^verbatim>\<open>observability.Metrics\<close>, and
  the reading of the clock.
\<close>

text \<open>
  Modelled from the spec: the module \<^verbatim>\<open>observability\<close> is not among the sources. Its
  metrics sink is four monotonically increasing counters (IPv4 success, IPv4 failure, IPv6
  success, IPv6 failure); a counting call returns and is recorded as a \<open>Metric\<close> event.
\<close>

datatype counter =
    count_ipv4_resolution_success
  | count_ipv4_resolution_failure
  | count_ipv6_resolution_success
  | count_ipv6_resolution_failure

datatype event =
    Query string rrtype
  | Warning string
  | Debug string "dns_result list"
  | Metric counter
  | ClockRead

text \<open>\<^verbatim>\<open>s.startswith(p)\<close>, \<^verbatim>\<open>bool(xs)\<close> of a list, and the truth value of an \<^verbatim>\<open>Optional[bool]\<close>.\<close>

definition startswith :: "string \<Rightarrow> string \<Rightarrow> bool" where
  "startswith s p = (take (length p) s = p)"

definition bool_of_list :: "'a list \<Rightarrow> bool" where
  "bool_of_list xs = (xs \<noteq> [])"

definition truthy :: "bool option \<Rightarrow> bool" where
  "truthy x = (x = Some True)"

section \<open>Host\<close>

record Host =
  name :: string
  has_ipv4_address :: "bool option"
  has_ipv6_address :: "bool option"

text \<open>\<^verbatim>\<open>Host(name)\<close>: both flags start as \<^verbatim>\<open>None\<close>.\<close>

definition Host_init :: "string \<Rightarrow> Host" where
  "Host_init n = \<lparr>Host.name = n, has_ipv4_address = None, has_ipv6_address = None\<rparr>"

text \<open>The first \<^verbatim>\<open>try\<close> statement of \<^verbatim>\<open>Host.resolve\<close> (the A query).\<close>

definition Host_resolve_A :: "DNSResolver \<Rightarrow> Host \<Rightarrow> exception + Host \<times> event list" where
  "Host_resolve_A resolver self =
     (case resolver (Host.name self) A_record of
        Inr _ \<Rightarrow>
          Inr (self\<lparr>has_ipv4_address := Some True\<rparr>,
               [Query (Host.name self) A_record, Metric count_ipv4_resolution_success])
      | Inl e \<Rightarrow>
          if is_DNSError e then
            Inr (self\<lparr>has_ipv4_address := Some False\<rparr>,
                 [Query (Host.name self) A_record,
                  Warning (Host.name self @ '' IPv4 DNS record not found either''),
                  Metric count_ipv4_resolution_failure])
          else Inl e)"

text \<open>The second \<^verbatim>\<open>try\<close> statement of \<^verbatim>\<open>Host.resolve\<close> (the AAAA query).\<close>

definition Host_resolve_AAAA :: "DNSResolver \<Rightarrow> Host \<Rightarrow> exception + Host \<times> event list" where
  "Host_resolve_AAAA resolver self =
     (case resolver (Host.name self) AAAA_record of
        Inr all_results \<Rightarrow>
          (let valid_ipv6 =
                 map host (filter (\<lambda>result. \<not> startswith (host result) ''::ffff:'') all_results)
           in Inr (self\<lparr>has_ipv6_address := Some (bool_of_list valid_ipv6)\<rparr>,
                   [Query (Host.name self) AAAA_record,
                    Debug (Host.name self) all_results,
                    Metric count_ipv6_resolution_success]))
      | Inl e \<Rightarrow>
          if is_DNSError e then
            Inr (self\<lparr>has_ipv6_address := Some False\<rparr>,
                 [Query (Host.name self) AAAA_record, Metric count_ipv6_resolution_failure])
          else Inl e)"

definition Host_resolve :: "DNSResolver \<Rightarrow> Host \<Rightarrow> exception + Host \<times> event list" where
  "Host_resolve resolver self =
     (case Host_resolve_A resolver self of
        Inl e \<Rightarrow> Inl e
      | Inr (h1, t1) \<Rightarrow>
          (case Host_resolve_AAAA resolver h1 of
             Inl e \<Rightarrow> Inl e
           | Inr (h2, t2) \<Rightarrow> Inr (h2, t1 @ t2)))"

section \<open>Running awaitables\<close>

text \<open>
  \<^verbatim>\<open>asyncio.gather(*(f(x) for x in xs))\<close> on objects that no two tasks share: every task
  runs to its end and mutates its own object; the first exception ends the call. Since a
  resolver's answer depends on the query alone, the objects left by the tasks do not
  depend on how the event loop interleaves them; the events are listed task by task.
\<close>

fun gather :: "('a \<Rightarrow> exception + 'a \<times> event list) \<Rightarrow> 'a list \<Rightarrow> exception + 'a list \<times> event list" where
  "gather f [] = Inr ([], [])"
| "gather f (x # xs) =
     (case f x of
        Inl e \<Rightarrow> Inl e
      | Inr (x', t) \<Rightarrow>
          (case gather f xs of
             Inl e \<Rightarrow> Inl e
           | Inr (xs', ts) \<Rightarrow> Inr (x' # xs', t @ ts)))"

section \<open>Entity\<close>

record Entity =
  country :: string
  category :: string
  name :: string
  main_host :: Host
  additional_hosts :: "Host list"
  ipv6_ready :: "bool option"

text \<open>
  A raw record (\<^verbatim>\<open>Dict[str, Any]\<close>) read at the five keys the module uses; \<open>None\<close> is
  an absent key. The values have the types the \<^verbatim>\<open>Entity\<close> dataclass annotates.
\<close>

record json_entity =
  j_country :: "string option"
  j_category :: "string option"
  j_main_host :: "string option"
  j_name :: "string option"
  j_additional_hosts :: "string list option"

text \<open>\<^verbatim>\<open>d[key]\<close> and \<^verbatim>\<open>d.get(key, default)\<close> on such a record.\<close>

definition getitem :: "'a option \<Rightarrow> string \<Rightarrow> exception + 'a" where
  "getitem field key = (case field of None \<Rightarrow> Inl (KeyError key) | Some v \<Rightarrow> Inr v)"

definition get_default :: "'a option \<Rightarrow> 'a \<Rightarrow> 'a" where
  "get_default field dflt = (case field of None \<Rightarrow> dflt | Some v \<Rightarrow> v)"

definition Entity_from_json :: "json_entity \<Rightarrow> exception + Entity" where
  "Entity_from_json json_entity =
     (case getitem (j_main_host json_entity) ''main_host'' of
        Inl e \<Rightarrow> Inl e
      | Inr mh \<Rightarrow>
          (let main_host = Host_init mh in
           case getitem (j_country json_entity) ''country'' of
             Inl e \<Rightarrow> Inl e
           | Inr c \<Rightarrow>
               (case getitem (j_category json_entity) ''category'' of
                  Inl e \<Rightarrow> Inl e
                | Inr g \<Rightarrow>
                    Inr \<lparr>country = c,
                         Entity.category = g,
                         Entity.name = get_default (j_name json_entity) (Host.name main_host),
                         main_host = main_host,
                         additional_hosts =
                           map Host_init (get_default (j_additional_hosts json_entity) []),
                         ipv6_ready = None\<rparr>)))"

text \<open>
  \<^verbatim>\<open>x and y\<close> yields \<^verbatim>\<open>x\<close> when \<^verbatim>\<open>x\<close> is falsy, else \<^verbatim>\<open>y\<close>; \<^verbatim>\<open>all(...)\<close> is a \<^verbatim>\<open>bool\<close>.
\<close>

definition py_and :: "bool option \<Rightarrow> bool \<Rightarrow> bool option" where
  "py_and x y = (if truthy x then Some y else x)"

definition py_all :: "bool option list \<Rightarrow> bool" where
  "py_all xs = list_all truthy xs"

definition Entity_resolve :: "DNSResolver \<Rightarrow> Entity \<Rightarrow> exception + Entity \<times> event list" where
  "Entity_resolve resolver self =
     (case Host_resolve resolver (main_host self) of
        Inl e \<Rightarrow> Inl e
      | Inr (m, t1) \<Rightarrow>
          (case gather (Host_resolve resolver) (additional_hosts self) of
             Inl e \<Rightarrow> Inl e
           | Inr (hs, t2) \<Rightarrow>
               Inr (self\<lparr>main_host := m,
                         additional_hosts := hs,
                         ipv6_ready :=
                           py_and (has_ipv6_address m) (py_all (map has_ipv6_address hs))\<rparr>,
                    t1 @ t2)))"

section \<open>Floats\<close>

text \<open>
  A finite, non-negative binary64 number is modelled by its value, a rational.
  \<open>round_to_double x\<close> is the binary64 number nearest to a rational \<open>x \<ge> 0\<close>, ties going
  to the even significand: 53 significant bits, the exponent of the last bit not below
  \<open>-1074\<close>. A result of \<open>2 ^ 1024\<close> or more is an overflow.
\<close>

definition round_half_even :: "rat \<Rightarrow> int" where
  "round_half_even x =
     (let f = \<lfloor>x\<rfloor>; d = x - of_int f
      in if d < 1 / 2 then f else if 1 / 2 < d then f + 1 else if even f then f else f + 1)"

definition ilog2 :: "rat \<Rightarrow> int" where
  "ilog2 x =
     (let (p, q) = quotient_of x; d = bitlen p - bitlen q
      in if 2 powi d \<le> x then d else d - 1)"

definition round_to_double :: "rat \<Rightarrow> rat" where
  "round_to_double x =
     (if x = 0 then 0
      else (let e = max (ilog2 x - 52) (- 1074)
            in of_int (round_half_even (x / 2 powi e)) * 2 powi e))"

text \<open>\<^verbatim>\<open>a / b\<close> on two non-negative ints: the quotient, correctly rounded.\<close>

definition true_divide :: "nat \<Rightarrow> nat \<Rightarrow> exception + rat" where
  "true_divide a b =
     (if b = 0 then Inl ZeroDivisionError
      else (let q = round_to_double (of_nat a / of_nat b)
            in if 2 ^ 1024 \<le> q then Inl OverflowError else Inr q))"

text \<open>\<^verbatim>\<open>str(n)\<close> for a non-negative int.\<close>

fun str_nat :: "nat \<Rightarrow> string" where
  "str_nat n =
     (if n < 10 then [''0123456789'' ! n]
      else str_nat (n div 10) @ [''0123456789'' ! (n mod 10)])"

text \<open>
  \<^verbatim>\<open>f"{x:.0%}"\<close> for a finite \<open>x \<ge> 0\<close>: the float is multiplied by 100 (a binary64
  product), and the product is printed with no decimals, correctly rounded (ties to even).
\<close>

definition format_percent0 :: "rat \<Rightarrow> string" where
  "format_percent0 x =
     (let val = round_to_double (x * 100)
      in if 2 ^ 1024 \<le> val then ''inf%''
         else str_nat (nat (round_half_even val)) @ ''%'')"

section \<open>Category\<close>

record Category =
  category :: string
  entities :: "Entity list"

definition Category_init :: "string \<Rightarrow> Category" where
  "Category_init tag = \<lparr>Category.category = tag, entities = []\<rparr>"

definition Category_register :: "Category \<Rightarrow> Entity \<Rightarrow> Category" where
  "Category_register self entity = self\<lparr>entities := entities self @ [entity]\<rparr>"

definition ready_count :: "Category \<Rightarrow> nat" where
  "ready_count self =
     sum_list (map (\<lambda>entity. 1) (filter (\<lambda>entity. truthy (ipv6_ready entity)) (entities self)))"

definition total_count :: "Category \<Rightarrow> nat" where
  "total_count self = length (entities self)"

definition ready_percentage :: "Category \<Rightarrow> exception + string" where
  "ready_percentage self =
     (case true_divide (ready_count self) (total_count self) of
        Inl e \<Rightarrow> Inl e
      | Inr ready_ratio \<Rightarrow> Inr (format_percent0 ready_ratio))"

section \<open>CountryData\<close>

text \<open>
  A \<^verbatim>\<open>dict\<close> keeps its keys in insertion order: an association list, read with
  \<open>map_of\<close>; \<^verbatim>\<open>d[k] = v\<close> is \<open>AList.update\<close> (a new key goes to the end) and a mutation of
  the object stored at \<^verbatim>\<open>d[k]\<close> is \<open>AList.map_entry\<close>.
\<close>

type_synonym ('k, 'v) dict = "('k \<times> 'v) list"

definition contains :: "('k, 'v) dict \<Rightarrow> 'k \<Rightarrow> bool" where
  "contains d k = (map_of d k \<noteq> None)"

record CountryData =
  country_code :: string
  categories :: "(string, Category) dict"

definition CountryData_init :: "string \<Rightarrow> CountryData" where
  "CountryData_init code = \<lparr>country_code = code, categories = []\<rparr>"

definition CountryData_register :: "CountryData \<Rightarrow> Entity \<Rightarrow> CountryData" where
  "CountryData_register self entity =
     (let cats =
            (if \<not> contains (categories self) (Entity.category entity)
             then AList.update (Entity.category entity)
                    (Category_init (Entity.category entity)) (categories self)
             else categories self)
      in self\<lparr>categories :=
                AList.map_entry (Entity.category entity)
                  (\<lambda>c. Category_register c entity) cats\<rparr>)"

text \<open>
  \<^verbatim>\<open>pycountry.countries.get(alpha_2=code)\<close> belongs to a library: it is a parameter here,
  a lookup that yields the country found or \<^verbatim>\<open>None\<close>, or raises. Reading \<^verbatim>\<open>.name\<close> of
  \<^verbatim>\<open>None\<close> raises \<^verbatim>\<open>AttributeError\<close>. The property returns its value or exception
  together with the calls it made on the library.
\<close>

record pycountry_country =
  alpha_2 :: string
  name :: string

type_synonym pycountry_countries = "string \<Rightarrow> exception + pycountry_country option"

datatype pycountry_call = Countries_get string

definition country_name ::
  "pycountry_countries \<Rightarrow> CountryData \<Rightarrow> (exception + string) \<times> pycountry_call list" where
  "country_name countries_get self =
     (if country_code self = ''xx'' then (Inr ''Validation Test'', [])
      else ((case countries_get (country_code self) of
               Inl e \<Rightarrow> Inl e
             | Inr None \<Rightarrow> Inl (AttributeError ''name'')
             | Inr (Some c) \<Rightarrow> Inr (pycountry_country.name c)),
            [Countries_get (country_code self)]))"

section \<open>Source\<close>

record Source =
  countries_data :: "(string, CountryData) dict"
  last_resolved :: "nat option"

definition Source_init :: Source where
  "Source_init = \<lparr>countries_data = [], last_resolved = None\<rparr>"

text \<open>One turn of the loop of \<^verbatim>\<open>extend_from_json\<close>, after the entity is built.\<close>

definition Source_register :: "Source \<Rightarrow> Entity \<Rightarrow> Source" where
  "Source_register self entity =
     (let cd =
            (if \<not> contains (countries_data self) (country entity)
             then AList.update (country entity) (CountryData_init (country entity))
                    (countries_data self)
             else countries_data self)
      in self\<lparr>countries_data :=
                AList.map_entry (country entity) (\<lambda>c. CountryData_register c entity) cd\<rparr>)"

text \<open>
  The loop mutates the source in place, so a \<^verbatim>\<open>KeyError\<close> in the middle leaves the
  entities registered so far: the result is the source reached, and the exception if any.
\<close>

fun extend_from_json :: "Source \<Rightarrow> json_entity list \<Rightarrow> Source \<times> exception option" where
  "extend_from_json self [] = (self, None)"
| "extend_from_json self (json_entity # json_entities) =
     (case Entity_from_json json_entity of
        Inl e \<Rightarrow> (self, Some e)
      | Inr entity \<Rightarrow> extend_from_json (Source_register self entity) json_entities)"

text \<open>
  \<^verbatim>\<open>resolve_all\<close>: the three \<^verbatim>\<open>for\<close> clauses of the generator, from the innermost; each
  entity is resolved where it sits in the tree. The resolver built by
  \<^verbatim>\<open>aiodns.DNSResolver()\<close> and the value of \<^verbatim>\<open>datetime.datetime.now()\<close> are parameters.
\<close>

definition on_value ::
  "('v \<Rightarrow> exception + 'v \<times> event list) \<Rightarrow> 'k \<times> 'v \<Rightarrow> exception + ('k \<times> 'v) \<times> event list" where
  "on_value f kv =
     (case f (snd kv) of Inl e \<Rightarrow> Inl e | Inr (v', t) \<Rightarrow> Inr ((fst kv, v'), t))"

definition Category_resolve_entities ::
  "DNSResolver \<Rightarrow> Category \<Rightarrow> exception + Category \<times> event list" where
  "Category_resolve_entities resolver cat =
     (case gather (Entity_resolve resolver) (entities cat) of
        Inl e \<Rightarrow> Inl e
      | Inr (es, t) \<Rightarrow> Inr (cat\<lparr>entities := es\<rparr>, t))"

definition CountryData_resolve_entities ::
  "DNSResolver \<Rightarrow> CountryData \<Rightarrow> exception + CountryData \<times> event list" where
  "CountryData_resolve_entities resolver cdata =
     (case gather (on_value (Category_resolve_entities resolver)) (categories cdata) of
        Inl e \<Rightarrow> Inl e
      | Inr (cs, t) \<Rightarrow> Inr (cdata\<lparr>categories := cs\<rparr>, t))"

definition resolve_all :: "DNSResolver \<Rightarrow> nat \<Rightarrow> Source \<Rightarrow> exception + Source \<times> event list" where
  "resolve_all resolver now self =
     (case gather (on_value (CountryData_resolve_entities resolver)) (countries_data self) of
        Inl e \<Rightarrow> Inl e
      | Inr (cd, t) \<Rightarrow>
          Inr (self\<lparr>countries_data := cd, last_resolved := Some now\<rparr>, t @ [ClockRead]))"

section \<open>Notions used to state the properties\<close>


text \<open>A resolver whose two answers for a name are results or a \<^verbatim>\<open>DNSError\<close>.\<close>

definition dns_outcome :: "exception + dns_result list \<Rightarrow> bool" where
  "dns_outcome r = (case r of Inl e \<Rightarrow> is_DNSError e | Inr _ \<Rightarrow> True)"

definition genuine_ipv6 :: "dns_result list \<Rightarrow> bool" where
  "genuine_ipv6 rs = (\<exists>r \<in> set rs. \<not> startswith (host r) ''::ffff:'')"

definition is_ipv6_event :: "event \<Rightarrow> bool" where
  "is_ipv6_event ev =
     (case ev of
        Query _ ty \<Rightarrow> ty = AAAA_record
      | Debug _ _ \<Rightarrow> True
      | Metric c \<Rightarrow> c = count_ipv6_resolution_success \<or> c = count_ipv6_resolution_failure
      | _ \<Rightarrow> False)"

text \<open>What a completed \<^verbatim>\<open>Host.resolve\<close> leaves in the host, and the calls it made.\<close>

definition ipv6_verdict :: "exception + dns_result list \<Rightarrow> bool" where
  "ipv6_verdict r = (case r of Inl _ \<Rightarrow> False | Inr rs \<Rightarrow> genuine_ipv6 rs)"

definition resolved_host :: "DNSResolver \<Rightarrow> Host \<Rightarrow> Host" where
  "resolved_host resolver h =
     h\<lparr>has_ipv4_address := Some (\<not> isl (resolver (Host.name h) A_record)),
       has_ipv6_address := Some (ipv6_verdict (resolver (Host.name h) AAAA_record))\<rparr>"

definition ipv4_events :: "string \<Rightarrow> exception + dns_result list \<Rightarrow> event list" where
  "ipv4_events n r =
     (case r of
        Inl _ \<Rightarrow> [Query n A_record, Warning (n @ '' IPv4 DNS record not found either''),
                  Metric count_ipv4_resolution_failure]
      | Inr _ \<Rightarrow> [Query n A_record, Metric count_ipv4_resolution_success])"

definition ipv6_events :: "string \<Rightarrow> exception + dns_result list \<Rightarrow> event list" where
  "ipv6_events n r =
     (case r of
        Inl _ \<Rightarrow> [Query n AAAA_record, Metric count_ipv6_resolution_failure]
      | Inr rs \<Rightarrow> [Query n AAAA_record, Debug n rs, Metric count_ipv6_resolution_success])"

definition host_events :: "DNSResolver \<Rightarrow> Host \<Rightarrow> event list" where
  "host_events resolver h =
     ipv4_events (Host.name h) (resolver (Host.name h) A_record)
     @ ipv6_events (Host.name h) (resolver (Host.name h) AAAA_record)"

definition dns_only :: "DNSResolver \<Rightarrow> Host \<Rightarrow> bool" where
  "dns_only resolver h =
     (dns_outcome (resolver (Host.name h) A_record)
      \<and> dns_outcome (resolver (Host.name h) AAAA_record))"

definition definite :: "Host \<Rightarrow> bool" where
  "definite h = (has_ipv4_address h \<noteq> None \<and> has_ipv6_address h \<noteq> None)"

text \<open>Concrete hosts and resolvers used to exercise the theorems.\<close>

definition resolver_mapped :: DNSResolver where
  "resolver_mapped n ty =
     (if ty = A_record then Inr [\<lparr>host = ''192.0.2.1'', ttl = 60\<rparr>]
      else Inr [\<lparr>host = ''::ffff:192.0.2.1'', ttl = 60\<rparr>])"

definition resolver_v6_only :: DNSResolver where
  "resolver_v6_only n ty =
     (if ty = A_record then Inl (DNSError 4)
      else Inr [\<lparr>host = ''::ffff:192.0.2.1'', ttl = 60\<rparr>, \<lparr>host = ''2001:db8::1'', ttl = 60\<rparr>])"

text \<open>What a completed \<^verbatim>\<open>Entity.resolve\<close> leaves in the entity, and the calls it made.\<close>

definition owned_hosts :: "Entity \<Rightarrow> Host list" where
  "owned_hosts e = main_host e # additional_hosts e"

definition resolved_entity :: "DNSResolver \<Rightarrow> Entity \<Rightarrow> Entity" where
  "resolved_entity resolver e =
     e\<lparr>main_host := resolved_host resolver (main_host e),
       additional_hosts := map (resolved_host resolver) (additional_hosts e),
       ipv6_ready :=
         py_and (has_ipv6_address (resolved_host resolver (main_host e)))
           (py_all (map has_ipv6_address (map (resolved_host resolver) (additional_hosts e))))\<rparr>"

definition entity_events :: "DNSResolver \<Rightarrow> Entity \<Rightarrow> event list" where
  "entity_events resolver e = concat (map (host_events resolver) (owned_hosts e))"

definition resolver_partial :: DNSResolver where
  "resolver_partial n ty =
     (if n = ''legacy.example.com'' \<and> ty = AAAA_record then Inl (DNSError 1)
      else Inr [\<lparr>host = (if ty = A_record then ''192.0.2.1'' else ''2001:db8::1''), ttl = 60\<rparr>])"

definition entity_two_hosts :: Entity where
  "entity_two_hosts =
     \<lparr>country = ''xx'', Entity.category = ''bank'', Entity.name = ''Example'',
      main_host = Host_init ''example.com'',
      additional_hosts = [Host_init ''legacy.example.com''],
      ipv6_ready = None\<rparr>"


text \<open>Concrete records, categories and a country table.\<close>

definition record_minimal :: json_entity where
  "record_minimal =
     \<lparr>j_country = Some ''xx'', j_category = Some ''bank'', j_main_host = Some ''example.com'',
      j_name = None, j_additional_hosts = None\<rparr>"

definition record_no_host :: json_entity where
  "record_no_host =
     \<lparr>j_country = Some ''xx'', j_category = Some ''bank'', j_main_host = None,
      j_name = Some ''Example'', j_additional_hosts = None\<rparr>"

definition entity_with_ready :: "bool option \<Rightarrow> Entity" where
  "entity_with_ready r =
     \<lparr>country = ''xx'', Entity.category = ''bank'', Entity.name = ''Example'',
      main_host = Host_init ''example.com'', additional_hosts = [], ipv6_ready = r\<rparr>"

definition category_unresolved :: Category where
  "category_unresolved =
     \<lparr>Category.category = ''bank'',
      entities = [entity_with_ready None, entity_with_ready None]\<rparr>"

definition countries_example :: pycountry_countries where
  "countries_example code =
     (if code = ''it'' then Inr (Some \<lparr>alpha_2 = ''IT'', pycountry_country.name = ''Italy''\<rparr>)
      else Inr None)"

definition countries_raising :: pycountry_countries where
  "countries_raising code = Inl (KeyError code)"

text \<open>
  The failure as the specification words it: a not-found condition (its
  \<^verbatim>\<open>UnknownCountryError\<close>). Among the exceptions of the module that is the lookup error,
  \<^verbatim>\<open>KeyError\<close>.
\<close>

definition not_found_condition :: "exception \<Rightarrow> bool" where
  "not_found_condition e = (case e of KeyError _ \<Rightarrow> True | _ \<Rightarrow> False)"


text \<open>A category of \<open>t\<close> entities of which the first \<open>r\<close> are ready.\<close>

definition category_with :: "nat \<Rightarrow> nat \<Rightarrow> Category" where
  "category_with r t =
     \<lparr>Category.category = ''bank'',
      entities = replicate r (entity_with_ready (Some True))
                 @ replicate (t - r) (entity_with_ready (Some False))\<rparr>"

text \<open>
  The percentage as the specification words it: the exact ratio
  \<open>ready_count / total_count\<close> as a percentage, rounded to an integer by standard rounding
  (a half goes up), no decimal places.
\<close>

definition standard_rounding :: "rat \<Rightarrow> int" where
  "standard_rounding x = \<lfloor>x + 1 / 2\<rfloor>"

definition standard_percentage :: "nat \<Rightarrow> nat \<Rightarrow> string" where
  "standard_percentage r t = str_nat (nat (standard_rounding (100 * of_nat r / of_nat t))) @ ''%''"

text \<open>The same with a half going to the even neighbour.\<close>

definition half_even_percentage :: "nat \<Rightarrow> nat \<Rightarrow> string" where
  "half_even_percentage r t = str_nat (nat (round_half_even (100 * of_nat r / of_nat t))) @ ''%''"

definition category_empty :: Category where
  "category_empty = Category_init ''bank''"


text \<open>
  Reading the tree: the keys in their stored order, and the entity sequence found under
  a country code and a category tag (empty where a node is absent).
\<close>

definition category_entities :: "CountryData \<Rightarrow> string \<Rightarrow> Entity list" where
  "category_entities cd g =
     (case map_of (categories cd) g of None \<Rightarrow> [] | Some c \<Rightarrow> entities c)"

definition entities_at :: "Source \<Rightarrow> string \<Rightarrow> string \<Rightarrow> Entity list" where
  "entities_at src c g =
     (case map_of (countries_data src) c of None \<Rightarrow> [] | Some cd \<Rightarrow> category_entities cd g)"

definition country_keys :: "Source \<Rightarrow> string list" where
  "country_keys src = map fst (countries_data src)"

definition category_keys :: "Source \<Rightarrow> string \<Rightarrow> string list" where
  "category_keys src c =
     (case map_of (countries_data src) c of None \<Rightarrow> [] | Some cd \<Rightarrow> map fst (categories cd))"

text \<open>The entities \<^verbatim>\<open>extend_from_json\<close> builds: those of the records before the first bad one.\<close>

fun entities_built :: "json_entity list \<Rightarrow> Entity list" where
  "entities_built [] = []"
| "entities_built (j # js) =
     (case Entity_from_json j of Inl _ \<Rightarrow> [] | Inr e \<Rightarrow> e # entities_built js)"

definition record_of :: "string \<Rightarrow> string \<Rightarrow> string \<Rightarrow> json_entity" where
  "record_of c g h =
     \<lparr>j_country = Some c, j_category = Some g, j_main_host = Some h,
      j_name = None, j_additional_hosts = None\<rparr>"

definition entity_of :: "string \<Rightarrow> string \<Rightarrow> string \<Rightarrow> Entity" where
  "entity_of c g h =
     \<lparr>country = c, Entity.category = g, Entity.name = h, main_host = Host_init h,
      additional_hosts = [], ipv6_ready = None\<rparr>"

definition records_example :: "json_entity list" where
  "records_example =
     [record_of ''it'' ''bank'' ''a.example'', record_of ''it'' ''isp'' ''b.example'',
      record_of ''it'' ''bank'' ''c.example'']"

definition source_example :: Source where
  "source_example =
     \<lparr>countries_data =
        [(''it'', \<lparr>country_code = ''it'',
                  categories =
                    [(''bank'', \<lparr>Category.category = ''bank'',
                                entities = [entity_of ''it'' ''bank'' ''a.example'',
                                            entity_of ''it'' ''bank'' ''c.example'']\<rparr>),
                     (''isp'', \<lparr>Category.category = ''isp'',
                               entities = [entity_of ''it'' ''isp'' ''b.example'']\<rparr>)]\<rparr>)],
      last_resolved = None\<rparr>"


text \<open>
  The entities of the tree in the order the generator of \<^verbatim>\<open>resolve_all\<close> visits them, and
  what a completed \<^verbatim>\<open>resolve_all\<close> leaves in the tree.
\<close>

definition all_entities :: "Source \<Rightarrow> Entity list" where
  "all_entities src =
     concat (map (\<lambda>(code, cdata). concat (map (\<lambda>(tag, cat). entities cat) (categories cdata)))
               (countries_data src))"

definition resolved_category :: "DNSResolver \<Rightarrow> Category \<Rightarrow> Category" where
  "resolved_category resolver cat =
     cat\<lparr>entities := map (resolved_entity resolver) (entities cat)\<rparr>"

definition resolved_country :: "DNSResolver \<Rightarrow> CountryData \<Rightarrow> CountryData" where
  "resolved_country resolver cdata =
     cdata\<lparr>categories :=
             map (\<lambda>(tag, cat). (tag, resolved_category resolver cat)) (categories cdata)\<rparr>"

definition resolved_source :: "DNSResolver \<Rightarrow> nat \<Rightarrow> Source \<Rightarrow> Source" where
  "resolved_source resolver now src =
     src\<lparr>countries_data :=
           map (\<lambda>(code, cdata). (code, resolved_country resolver cdata)) (countries_data src),
         last_resolved := Some now\<rparr>"

definition answerable :: "DNSResolver \<Rightarrow> Entity \<Rightarrow> bool" where
  "answerable resolver e = (\<forall>h \<in> set (owned_hosts e). dns_only resolver h)"

definition source_single :: Source where
  "source_single =
     \<lparr>countries_data =
        [(''xx'', \<lparr>country_code = ''xx'',
                  categories =
                    [(''bank'', \<lparr>Category.category = ''bank'',
                                entities = [entity_of ''xx'' ''bank'' ''example.com'']\<rparr>)]\<rparr>)],
      last_resolved = None\<rparr>"


section \<open>Properties of Host.resolve\<close>

lemma startswith_prefix: "startswith s p = prefix p s"
  by (auto simp: startswith_def prefix_def) (metis append_eq_conv_conj)

lemma Host_resolve_A_iff:
  "Host_resolve_A resolver self = Inr (h, t) \<longleftrightarrow>
     dns_outcome (resolver (Host.name self) A_record)
     \<and> h = self\<lparr>has_ipv4_address := Some (\<not> isl (resolver (Host.name self) A_record))\<rparr>
     \<and> t = ipv4_events (Host.name self) (resolver (Host.name self) A_record)"
  by (cases "resolver (Host.name self) A_record")
     (auto simp: Host_resolve_A_def dns_outcome_def ipv4_events_def)

lemma Host_resolve_AAAA_iff:
  "Host_resolve_AAAA resolver self = Inr (h, t) \<longleftrightarrow>
     dns_outcome (resolver (Host.name self) AAAA_record)
     \<and> h = self\<lparr>has_ipv6_address := Some (ipv6_verdict (resolver (Host.name self) AAAA_record))\<rparr>
     \<and> t = ipv6_events (Host.name self) (resolver (Host.name self) AAAA_record)"
  by (cases "resolver (Host.name self) AAAA_record")
     (auto simp: Host_resolve_AAAA_def dns_outcome_def ipv6_events_def ipv6_verdict_def
        genuine_ipv6_def bool_of_list_def filter_empty_conv)

lemma Host_resolve_iff:
  "Host_resolve resolver self = Inr (h, t) \<longleftrightarrow>
     dns_only resolver self \<and> h = resolved_host resolver self \<and> t = host_events resolver self"
proof (cases "Host_resolve_A resolver self")
  case (Inl e)
  then have "\<not> dns_outcome (resolver (Host.name self) A_record)"
    using Host_resolve_A_iff [of resolver self] by (metis Inl_Inr_False)
  with Inl show ?thesis by (simp add: Host_resolve_def dns_only_def)
next
  case (Inr p)
  obtain h1 t1 where p: "p = (h1, t1)" by (cases p)
  from Inr p have A: "dns_outcome (resolver (Host.name self) A_record)"
    and h1: "h1 = self\<lparr>has_ipv4_address := Some (\<not> isl (resolver (Host.name self) A_record))\<rparr>"
    and t1: "t1 = ipv4_events (Host.name self) (resolver (Host.name self) A_record)"
    by (simp_all add: Host_resolve_A_iff)
  have n: "Host.name h1 = Host.name self" by (simp add: h1)
  show ?thesis
  proof (cases "Host_resolve_AAAA resolver h1")
    case (Inl e)
    then have "\<not> dns_outcome (resolver (Host.name self) AAAA_record)"
      using Host_resolve_AAAA_iff [of resolver h1] n by (metis Inl_Inr_False)
    with Inl Inr p show ?thesis by (simp add: Host_resolve_def dns_only_def)
  next
    case (Inr q)
    obtain h2 t2 where q: "q = (h2, t2)" by (cases q)
    from Inr q n have B: "dns_outcome (resolver (Host.name self) AAAA_record)"
      and h2: "h2 = h1\<lparr>has_ipv6_address := Some (ipv6_verdict (resolver (Host.name self) AAAA_record))\<rparr>"
      and t2: "t2 = ipv6_events (Host.name self) (resolver (Host.name self) AAAA_record)"
      by (simp_all add: Host_resolve_AAAA_iff)
    from \<open>Host_resolve_A resolver self = Inr p\<close> p Inr q
    have "Host_resolve resolver self = Inr (h2, t1 @ t2)"
      by (simp add: Host_resolve_def)
    with A B h1 h2 t1 t2 show ?thesis
      by (auto simp: dns_only_def resolved_host_def host_events_def)
  qed
qed

lemma Host_resolve_dns_only:
  "dns_only resolver self \<Longrightarrow>
     Host_resolve resolver self = Inr (resolved_host resolver self, host_events resolver self)"
  by (simp add: Host_resolve_iff)

lemma resolved_host_simps:
  "Host.name (resolved_host resolver h) = Host.name h"
  "has_ipv4_address (resolved_host resolver h) = Some (\<not> isl (resolver (Host.name h) A_record))"
  "has_ipv6_address (resolved_host resolver h)
     = Some (ipv6_verdict (resolver (Host.name h) AAAA_record))"
  "definite (resolved_host resolver h)"
  by (simp_all add: resolved_host_def definite_def)

lemma ipv4_events_not_ipv6: "filter is_ipv6_event (ipv4_events n r) = []"
  by (cases r) (simp_all add: ipv4_events_def is_ipv6_event_def)

lemma ipv6_events_all_ipv6: "filter is_ipv6_event (ipv6_events n r) = ipv6_events n r"
  by (cases r) (simp_all add: ipv6_events_def is_ipv6_event_def)

lemma host_events_ipv6:
  "filter is_ipv6_event (host_events resolver h)
     = ipv6_events (Host.name h) (resolver (Host.name h) AAAA_record)"
  by (simp add: host_events_def ipv4_events_not_ipv6 ipv6_events_all_ipv6)

lemma host_events_metrics:
  "Metric count_ipv4_resolution_failure \<in> set (host_events resolver h)
     \<longleftrightarrow> isl (resolver (Host.name h) A_record)"
  "Metric count_ipv4_resolution_success \<in> set (host_events resolver h)
     \<longleftrightarrow> \<not> isl (resolver (Host.name h) A_record)"
  "Metric count_ipv6_resolution_failure \<in> set (host_events resolver h)
     \<longleftrightarrow> isl (resolver (Host.name h) AAAA_record)"
  "Metric count_ipv6_resolution_success \<in> set (host_events resolver h)
     \<longleftrightarrow> \<not> isl (resolver (Host.name h) AAAA_record)"
  by (cases "resolver (Host.name h) A_record"; cases "resolver (Host.name h) AAAA_record";
      simp add: host_events_def ipv4_events_def ipv6_events_def)+

text \<open>
  C1. When the AAAA query of a host succeeds with the results \<open>rs\<close> (and the A query
  ended in results or a DNS error, so that the AAAA query is reached),
  \<^verbatim>\<open>Host.resolve\<close> returns, and \<open>has_ipv6_address\<close> is true exactly if some returned
  address does not start with \<^verbatim>\<open>::ffff:\<close>; if all of them do, it is false. The
  IPv6-success counter is counted in both cases, and the IPv6-failure counter is not.
\<close>

theorem Host_resolve_ipv6_filter:
  assumes "resolver (Host.name self) AAAA_record = Inr rs"
    and "dns_outcome (resolver (Host.name self) A_record)"
  shows "\<exists>h tr. Host_resolve resolver self = Inr (h, tr)
           \<and> (has_ipv6_address h = Some True
                \<longleftrightarrow> (\<exists>r \<in> set rs. \<not> startswith (host r) ''::ffff:''))
           \<and> ((\<forall>r \<in> set rs. startswith (host r) ''::ffff:'')
                \<longrightarrow> has_ipv6_address h = Some False)
           \<and> Metric count_ipv6_resolution_success \<in> set tr
           \<and> Metric count_ipv6_resolution_failure \<notin> set tr"
proof -
  from assms have "dns_only resolver self"
    by (simp add: dns_only_def dns_outcome_def)
  then have "Host_resolve resolver self
               = Inr (resolved_host resolver self, host_events resolver self)"
    by (rule Host_resolve_dns_only)
  moreover have "has_ipv6_address (resolved_host resolver self) = Some (genuine_ipv6 rs)"
    using assms(1) by (simp add: resolved_host_simps ipv6_verdict_def)
  ultimately show ?thesis
    using assms(1) by (auto simp: host_events_metrics genuine_ipv6_def)
qed

theorem Host_resolve_ipv6_filter_witness:
  "\<exists>h tr. Host_resolve resolver_mapped (Host_init ''example.com'') = Inr (h, tr)
     \<and> has_ipv6_address h = Some False
     \<and> Metric count_ipv6_resolution_success \<in> set tr"
  using Host_resolve_ipv6_filter
          [of resolver_mapped "Host_init ''example.com''"
              "[\<lparr>host = ''::ffff:192.0.2.1'', ttl = 60\<rparr>]"]
  by (auto simp: resolver_mapped_def dns_outcome_def startswith_def)

text \<open>
  C3. For every host and every pair of outcomes of its two queries, each being results
  or a DNS error, \<^verbatim>\<open>Host.resolve\<close> returns normally. The host keeps its name, both flags
  are definite, a failed A query gives \<open>has_ipv4_address = False\<close> and an IPv4-failure
  count, a failed AAAA query gives \<open>has_ipv6_address = False\<close> and an IPv6-failure count.
  The A step does not affect the AAAA step: with any other outcome of the A query and the
  same outcome of the AAAA query, \<open>has_ipv6_address\<close> and the calls of the AAAA step are
  the same.
\<close>

theorem Host_resolve_never_fails:
  assumes "dns_outcome (resolver (Host.name self) A_record)"
    and "dns_outcome (resolver (Host.name self) AAAA_record)"
  shows "\<exists>h tr. Host_resolve resolver self = Inr (h, tr)
           \<and> Host.name h = Host.name self
           \<and> has_ipv4_address h = Some (\<not> isl (resolver (Host.name self) A_record))
           \<and> has_ipv6_address h \<noteq> None
           \<and> (isl (resolver (Host.name self) A_record)
                \<longrightarrow> Metric count_ipv4_resolution_failure \<in> set tr)
           \<and> (isl (resolver (Host.name self) AAAA_record)
                \<longrightarrow> has_ipv6_address h = Some False
                  \<and> Metric count_ipv6_resolution_failure \<in> set tr)
           \<and> (\<forall>resolver'.
                 dns_outcome (resolver' (Host.name self) A_record)
                 \<and> resolver' (Host.name self) AAAA_record = resolver (Host.name self) AAAA_record
                 \<longrightarrow> (\<exists>h' tr'. Host_resolve resolver' self = Inr (h', tr')
                        \<and> has_ipv6_address h' = has_ipv6_address h
                        \<and> filter is_ipv6_event tr' = filter is_ipv6_event tr))"
proof -
  from assms have "dns_only resolver self" by (simp add: dns_only_def)
  then have eq: "Host_resolve resolver self
                   = Inr (resolved_host resolver self, host_events resolver self)"
    by (rule Host_resolve_dns_only)
  have other: "\<exists>h' tr'. Host_resolve resolver' self = Inr (h', tr')
                 \<and> has_ipv6_address h' = has_ipv6_address (resolved_host resolver self)
                 \<and> filter is_ipv6_event tr' = filter is_ipv6_event (host_events resolver self)"
    if "dns_outcome (resolver' (Host.name self) A_record)"
      and "resolver' (Host.name self) AAAA_record = resolver (Host.name self) AAAA_record"
    for resolver'
  proof -
    from that assms(2) have "dns_only resolver' self" by (simp add: dns_only_def)
    then have "Host_resolve resolver' self
                 = Inr (resolved_host resolver' self, host_events resolver' self)"
      by (rule Host_resolve_dns_only)
    with that(2) show ?thesis
      by (simp add: resolved_host_simps host_events_ipv6)
  qed
  have fail6: "has_ipv6_address (resolved_host resolver self) = Some False"
    if "isl (resolver (Host.name self) AAAA_record)"
    using that by (cases "resolver (Host.name self) AAAA_record")
                  (simp_all add: resolved_host_simps ipv6_verdict_def)
  from eq other fail6 show ?thesis
    by (simp add: resolved_host_simps host_events_metrics)
qed

theorem Host_resolve_never_fails_witness:
  "\<exists>h tr. Host_resolve resolver_v6_only (Host_init ''example.com'') = Inr (h, tr)
     \<and> has_ipv4_address h = Some False
     \<and> has_ipv6_address h \<noteq> None
     \<and> Metric count_ipv4_resolution_failure \<in> set tr"
  using Host_resolve_never_fails [of resolver_v6_only "Host_init ''example.com''"]
  by (auto simp: resolver_v6_only_def dns_outcome_def)

section \<open>Properties of Entity.resolve\<close>

lemma gather_iff:
  assumes "\<And>x y t. x \<in> set xs \<Longrightarrow> f x = Inr (y, t) \<longleftrightarrow> P x \<and> y = g x \<and> t = ev x"
  shows "gather f xs = Inr (ys, tr) \<longleftrightarrow>
           (\<forall>x \<in> set xs. P x) \<and> ys = map g xs \<and> tr = concat (map ev xs)"
  using assms
proof (induction xs arbitrary: ys tr)
  case Nil
  show ?case by auto
next
  case (Cons x xs)
  have step: "f x = Inr (y, t) \<longleftrightarrow> P x \<and> y = g x \<and> t = ev x" for y t
    using Cons.prems by simp
  have rest: "gather f xs = Inr (ys', tr') \<longleftrightarrow>
                (\<forall>x \<in> set xs. P x) \<and> ys' = map g xs \<and> tr' = concat (map ev xs)" for ys' tr'
    using Cons.IH Cons.prems by simp
  show ?case
  proof (cases "f x")
    case (Inl e)
    with step have "\<not> P x" by (metis Inl_Inr_False)
    with Inl show ?thesis by simp
  next
    case (Inr p)
    obtain y t where p: "p = (y, t)" by (cases p)
    from Inr p step have x: "P x" "y = g x" "t = ev x" by simp_all
    show ?thesis
    proof (cases "gather f xs")
      case (Inl e)
      with rest have "\<not> (\<forall>x \<in> set xs. P x)" by (metis Inl_Inr_False)
      with Inl Inr p show ?thesis by simp
    next
      case (Inr q)
      obtain ys' tr' where q: "q = (ys', tr')" by (cases q)
      from Inr q rest have "\<forall>x \<in> set xs. P x" "ys' = map g xs" "tr' = concat (map ev xs)"
        by simp_all
      with Inr q \<open>f x = Inr p\<close> p x show ?thesis by auto
    qed
  qed
qed

lemma Entity_resolve_iff:
  "Entity_resolve resolver self = Inr (e, tr) \<longleftrightarrow>
     (\<forall>h \<in> set (owned_hosts self). dns_only resolver h)
     \<and> e = resolved_entity resolver self \<and> tr = entity_events resolver self"
proof -
  have hosts: "gather (Host_resolve resolver) (additional_hosts self) = Inr (hs, t) \<longleftrightarrow>
                 (\<forall>h \<in> set (additional_hosts self). dns_only resolver h)
                 \<and> hs = map (resolved_host resolver) (additional_hosts self)
                 \<and> t = concat (map (host_events resolver) (additional_hosts self))" for hs t
    by (rule gather_iff) (rule Host_resolve_iff)
  show ?thesis
  proof (cases "Host_resolve resolver (main_host self)")
    case (Inl e')
    then have "\<not> dns_only resolver (main_host self)"
      using Host_resolve_iff [of resolver "main_host self"] by (metis Inl_Inr_False)
    with Inl show ?thesis by (simp add: Entity_resolve_def owned_hosts_def)
  next
    case (Inr p)
    obtain m t1 where p: "p = (m, t1)" by (cases p)
    from Inr p have m: "dns_only resolver (main_host self)"
      "m = resolved_host resolver (main_host self)" "t1 = host_events resolver (main_host self)"
      by (simp_all add: Host_resolve_iff)
    show ?thesis
    proof (cases "gather (Host_resolve resolver) (additional_hosts self)")
      case (Inl e')
      with hosts have "\<not> (\<forall>h \<in> set (additional_hosts self). dns_only resolver h)"
        by (metis Inl_Inr_False)
      with Inl Inr p show ?thesis by (simp add: Entity_resolve_def owned_hosts_def)
    next
      case (Inr q)
      obtain hs t2 where q: "q = (hs, t2)" by (cases q)
      from Inr q hosts have hs: "\<forall>h \<in> set (additional_hosts self). dns_only resolver h"
        "hs = map (resolved_host resolver) (additional_hosts self)"
        "t2 = concat (map (host_events resolver) (additional_hosts self))"
        by simp_all
      from \<open>Host_resolve resolver (main_host self) = Inr p\<close> p Inr q
      have "Entity_resolve resolver self =
              Inr (self\<lparr>main_host := m, additional_hosts := hs,
                        ipv6_ready := py_and (has_ipv6_address m)
                                        (py_all (map has_ipv6_address hs))\<rparr>, t1 @ t2)"
        by (simp add: Entity_resolve_def)
      with m hs show ?thesis
        by (auto simp: owned_hosts_def resolved_entity_def entity_events_def)
    qed
  qed
qed

lemma resolved_entity_ready:
  "ipv6_ready (resolved_entity resolver e)
     = Some (\<forall>h \<in> set (owned_hosts (resolved_entity resolver e)). has_ipv6_address h = Some True)"
  by (auto simp: resolved_entity_def owned_hosts_def py_and_def py_all_def truthy_def
        list_all_iff resolved_host_simps)

lemma resolved_entity_definite:
  "\<forall>h \<in> set (owned_hosts (resolved_entity resolver e)). definite h"
  by (auto simp: resolved_entity_def owned_hosts_def resolved_host_simps)

text \<open>
  C2. After \<^verbatim>\<open>Entity.resolve\<close> has returned, \<open>ipv6_ready\<close> is the conjunction of
  \<open>has_ipv6_address\<close> of the primary host and of every secondary host. With no secondary
  host the entity is ready exactly if its primary host has IPv6; a secondary host whose
  \<open>has_ipv6_address\<close> is false makes it not ready, whatever the primary host.
\<close>

theorem Entity_resolve_ipv6_ready:
  assumes "Entity_resolve resolver self = Inr (e, tr)"
  shows "ipv6_ready e
           = Some (has_ipv6_address (main_host e) = Some True
                   \<and> (\<forall>h \<in> set (additional_hosts e). has_ipv6_address h = Some True))
         \<and> (additional_hosts self = []
              \<longrightarrow> additional_hosts e = []
                \<and> ipv6_ready e = Some (has_ipv6_address (main_host e) = Some True))
         \<and> ((\<exists>h \<in> set (additional_hosts e). has_ipv6_address h = Some False)
              \<longrightarrow> ipv6_ready e = Some False)"
proof -
  from assms have e: "e = resolved_entity resolver self"
    by (simp add: Entity_resolve_iff)
  have "ipv6_ready e = Some (\<forall>h \<in> set (owned_hosts e). has_ipv6_address h = Some True)"
    unfolding e by (rule resolved_entity_ready)
  then have ready: "ipv6_ready e
           = Some (has_ipv6_address (main_host e) = Some True
                   \<and> (\<forall>h \<in> set (additional_hosts e). has_ipv6_address h = Some True))"
    by (simp add: owned_hosts_def)
  have none: "additional_hosts self = [] \<Longrightarrow> additional_hosts e = []"
    by (simp add: e resolved_entity_def)
  have bad: "ipv6_ready e = Some False"
    if "\<exists>h \<in> set (additional_hosts e). has_ipv6_address h = Some False"
  proof -
    from that obtain h where "h \<in> set (additional_hosts e)" "has_ipv6_address h \<noteq> Some True"
      by auto
    then have "\<not> (\<forall>h \<in> set (additional_hosts e). has_ipv6_address h = Some True)"
      by blast
    with ready show ?thesis by simp
  qed
  from ready none bad show ?thesis by simp
qed

theorem Entity_resolve_ipv6_ready_witness:
  "\<exists>e tr. Entity_resolve resolver_partial entity_two_hosts = Inr (e, tr)
     \<and> has_ipv6_address (main_host e) = Some True
     \<and> ipv6_ready e = Some False"
proof -
  have "Entity_resolve resolver_partial entity_two_hosts
          = Inr (resolved_entity resolver_partial entity_two_hosts,
                 entity_events resolver_partial entity_two_hosts)"
    by (simp add: Entity_resolve_iff owned_hosts_def entity_two_hosts_def dns_only_def
          dns_outcome_def resolver_partial_def Host_init_def)
  moreover have "has_ipv6_address (main_host (resolved_entity resolver_partial entity_two_hosts))
                   = Some True"
    by (simp add: resolved_entity_def entity_two_hosts_def resolved_host_def Host_init_def
          resolver_partial_def ipv6_verdict_def genuine_ipv6_def startswith_def)
  moreover have "\<exists>h \<in> set (additional_hosts (resolved_entity resolver_partial entity_two_hosts)).
                   has_ipv6_address h = Some False"
    by (simp add: resolved_entity_def entity_two_hosts_def resolved_host_def Host_init_def
          resolver_partial_def ipv6_verdict_def)
  ultimately show ?thesis
    using Entity_resolve_ipv6_ready
            [of resolver_partial entity_two_hosts
                "resolved_entity resolver_partial entity_two_hosts"
                "entity_events resolver_partial entity_two_hosts"]
    by blast
qed

section \<open>Properties of Entity.from_json and of country_name\<close>

text \<open>
  C8. A raw record that has the keys \<^verbatim>\<open>main_host\<close>, \<^verbatim>\<open>country\<close> and \<^verbatim>\<open>category\<close> gives
  an entity with these three values (the primary host fresh, both flags unknown), whose
  name is the record's \<^verbatim>\<open>name\<close> when that key is present and the primary host's name
  otherwise, and whose secondary hosts are those of \<^verbatim>\<open>additional_hosts\<close>, none when the
  key is absent. A record that lacks one of the three required keys raises \<^verbatim>\<open>KeyError\<close>.
\<close>

theorem Entity_from_json_fields:
  "(\<forall>m c g. j_main_host j = Some m \<and> j_country j = Some c \<and> j_category j = Some g \<longrightarrow>
      (\<exists>e. Entity_from_json j = Inr e
         \<and> main_host e = Host_init m \<and> country e = c \<and> Entity.category e = g
         \<and> Entity.name e = (case j_name j of Some n \<Rightarrow> n | None \<Rightarrow> Host.name (main_host e))
         \<and> additional_hosts e
             = (case j_additional_hosts j of Some hs \<Rightarrow> map Host_init hs | None \<Rightarrow> [])
         \<and> ipv6_ready e = None))
   \<and> (j_main_host j = None \<or> j_country j = None \<or> j_category j = None \<longrightarrow>
        (\<exists>k. Entity_from_json j = Inl (KeyError k)))"
  by (auto simp: Entity_from_json_def getitem_def get_default_def Let_def
        split: option.splits)

theorem Entity_from_json_fields_witness:
  "(\<exists>e. Entity_from_json record_minimal = Inr e
      \<and> Entity.name e = ''example.com'' \<and> additional_hosts e = [])
   \<and> (\<exists>k. Entity_from_json record_no_host = Inl (KeyError k))"
  using Entity_from_json_fields [of record_minimal] Entity_from_json_fields [of record_no_host]
  by (auto simp: record_minimal_def record_no_host_def Host_init_def)

text \<open>
  C9, as stated, fails in its last part. For a code that the country table does not know,
  the lookup yields \<^verbatim>\<open>None\<close> and \<open>country_name\<close> raises the \<^verbatim>\<open>AttributeError\<close> of reading
  \<^verbatim>\<open>.name\<close> of \<^verbatim>\<open>None\<close>, which is not a not-found condition.
\<close>

theorem country_name_not_found_counterexample:
  "countries_example ''zz'' = Inr None
   \<and> fst (country_name countries_example (CountryData_init ''zz'')) = Inl (AttributeError ''name'')
   \<and> \<not> not_found_condition (AttributeError ''name'')"
  by (simp add: country_name_def countries_example_def CountryData_init_def
        not_found_condition_def)

text \<open>
  C9, amended. For the country code \<^verbatim>\<open>xx\<close>, \<open>country_name\<close> is the literal
  \<^verbatim>\<open>Validation Test\<close> and makes no call on the country table, whatever the table would
  answer. For any other code it makes exactly one call on the table, with that code: it is
  the name of the country the table finds; when the table finds none it fails with the
  \<^verbatim>\<open>AttributeError\<close> of reading \<^verbatim>\<open>.name\<close> of \<^verbatim>\<open>None\<close>, not with a not-found error; an
  exception raised by the table itself is passed on.
\<close>

theorem country_name_lookup:
  "(country_code self = ''xx'' \<longrightarrow>
      (\<forall>countries_get. country_name countries_get self = (Inr ''Validation Test'', [])))
   \<and> (country_code self \<noteq> ''xx'' \<longrightarrow>
        snd (country_name countries_get self) = [Countries_get (country_code self)]
        \<and> (\<forall>c. countries_get (country_code self) = Inr (Some c) \<longrightarrow>
              fst (country_name countries_get self) = Inr (pycountry_country.name c))
        \<and> (countries_get (country_code self) = Inr None \<longrightarrow>
              fst (country_name countries_get self) = Inl (AttributeError ''name'')
              \<and> \<not> not_found_condition (AttributeError ''name''))
        \<and> (\<forall>e. countries_get (country_code self) = Inl e \<longrightarrow>
              fst (country_name countries_get self) = Inl e))"
  by (simp add: country_name_def not_found_condition_def)

theorem country_name_lookup_witness:
  "country_name countries_raising (CountryData_init ''xx'') = (Inr ''Validation Test'', [])
   \<and> country_name countries_example (CountryData_init ''it'')
       = (Inr ''Italy'', [Countries_get ''it''])
   \<and> country_name countries_example (CountryData_init ''zz'')
       = (Inl (AttributeError ''name''), [Countries_get ''zz''])
   \<and> country_name countries_raising (CountryData_init ''zz'')
       = (Inl (KeyError ''zz''), [Countries_get ''zz''])"
proof -
  have code: "country_code (CountryData_init c) = c" for c
    by (simp add: CountryData_init_def)
  have a: "country_name countries_raising (CountryData_init ''xx'') = (Inr ''Validation Test'', [])"
    using country_name_lookup [of "CountryData_init ''xx''" countries_example]
    by (simp add: code)
  have b: "country_name countries_example (CountryData_init ''it'')
             = (Inr ''Italy'', [Countries_get ''it''])"
    using country_name_lookup [of "CountryData_init ''it''" countries_example]
    by (simp add: code countries_example_def prod_eq_iff)
  have c: "country_name countries_example (CountryData_init ''zz'')
             = (Inl (AttributeError ''name''), [Countries_get ''zz''])"
    using country_name_lookup [of "CountryData_init ''zz''" countries_example]
    by (simp add: code countries_example_def prod_eq_iff)
  have d: "country_name countries_raising (CountryData_init ''zz'')
             = (Inl (KeyError ''zz''), [Countries_get ''zz''])"
    using country_name_lookup [of "CountryData_init ''zz''" countries_raising]
    by (simp add: code countries_raising_def prod_eq_iff)
  from a b c d show ?thesis by blast
qed

section \<open>Properties of the counts of a category\<close>

lemma ready_count_length:
  "ready_count self = length (filter (\<lambda>e. ipv6_ready e = Some True) (entities self))"
  by (simp add: ready_count_def truthy_def sum_list_triv)

lemma ready_count_le_total: "ready_count self \<le> total_count self"
  by (simp add: ready_count_length total_count_def)

text \<open>
  C10. In every category \<open>0 \<le> ready_count \<le> total_count\<close>. \<open>ready_count\<close> counts the
  entities whose \<open>ipv6_ready\<close> is true, so an entity whose \<open>ipv6_ready\<close> is unknown is not
  counted: registering one leaves \<open>ready_count\<close> as it was, and a category whose entities
  are all unresolved has \<open>ready_count = 0\<close>.
\<close>

theorem ready_count_bounds:
  "0 \<le> ready_count self \<and> ready_count self \<le> total_count self
   \<and> ready_count self = length (filter (\<lambda>e. ipv6_ready e = Some True) (entities self))
   \<and> (ipv6_ready entity = None \<longrightarrow>
        ready_count (Category_register self entity) = ready_count self)
   \<and> ((\<forall>e \<in> set (entities self). ipv6_ready e = None) \<longrightarrow> ready_count self = 0)"
  using ready_count_le_total [of self]
  by (auto simp: ready_count_length Category_register_def)

theorem ready_count_bounds_witness:
  "ready_count category_unresolved = 0 \<and> total_count category_unresolved = 2
   \<and> ready_count (Category_register category_unresolved (entity_with_ready None)) = 0"
  using ready_count_bounds [of category_unresolved "entity_with_ready None"]
  by (simp add: category_unresolved_def entity_with_ready_def total_count_def)

section \<open>Properties of the rounding functions\<close>

lemma round_half_even_error: "\<bar>of_int (round_half_even x) - x\<bar> \<le> 1 / 2"
proof -
  have "of_int \<lfloor>x\<rfloor> \<le> x" "x < of_int \<lfloor>x\<rfloor> + 1" by linarith+
  then show ?thesis
    by (auto simp: round_half_even_def Let_def abs_le_iff)
qed

lemma round_half_even_of_int [simp]: "round_half_even (of_int n) = n"
  by (simp add: round_half_even_def)

lemma round_half_even_le: "x \<le> of_int n \<Longrightarrow> round_half_even x \<le> n"
proof -
  assume le: "x \<le> of_int n"
  have fl: "\<lfloor>x\<rfloor> \<le> n" using le by (simp add: floor_le_iff) 
  show ?thesis
  proof (cases "\<lfloor>x\<rfloor> = n")
    case True
    then have "x = of_int n" using le by linarith
    then show ?thesis by simp
  next
    case False
    with fl have "\<lfloor>x\<rfloor> + 1 \<le> n" by simp
    then show ?thesis by (auto simp: round_half_even_def Let_def)
  qed
qed

lemma round_half_even_ge: "of_int n \<le> x \<Longrightarrow> n \<le> round_half_even x"
proof -
  assume "of_int n \<le> x"
  then have "n \<le> \<lfloor>x\<rfloor>" by (simp add: le_floor_iff)
  then show ?thesis by (auto simp: round_half_even_def Let_def)
qed

lemma bitlen_powi_bounds:
  assumes "0 < (p::int)"
  shows "(2::rat) powi (bitlen p - 1) \<le> of_int p" "of_int p < (2::rat) powi bitlen p"
proof -
  from bitlen_bounds [OF assms]
  have a: "2 ^ nat (bitlen p - 1) \<le> p" and b: "p < 2 ^ nat (bitlen p)" by simp_all
  have pos: "1 \<le> bitlen p" using assms by (simp add: bitlen_alt_def)
  from a have "(of_int (2 ^ nat (bitlen p - 1)) :: rat) \<le> of_int p" by (simp only: of_int_le_iff)
  then show "(2::rat) powi (bitlen p - 1) \<le> of_int p"
    using pos by (simp add: power_int_def)
  from b have "(of_int p :: rat) < of_int (2 ^ nat (bitlen p))" by (simp only: of_int_less_iff)
  then show "of_int p < (2::rat) powi bitlen p"
    using pos by (simp add: power_int_def)
qed

lemma ilog2_bounds:
  assumes "0 < x"
  shows "2 powi ilog2 x \<le> x" "x < 2 powi (ilog2 x + 1)"
proof -
  obtain p q where pq: "quotient_of x = (p, q)" by (cases "quotient_of x")
  then have q: "0 < q" by (rule quotient_of_denom_pos)
  have x: "x = of_int p / of_int q" using pq by (rule quotient_of_div)
  with assms q have p: "0 < p" by (simp add: zero_less_divide_iff)
  define d where "d = bitlen p - bitlen q"
  have il: "ilog2 x = (if 2 powi d \<le> x then d else d - 1)"
    by (simp add: ilog2_def pq d_def Let_def)
  note P = bitlen_powi_bounds [OF p] and Q = bitlen_powi_bounds [OF q]
  have qpos: "(0::rat) < of_int q" using q by simp
  have lo: "2 powi (d - 1) \<le> x"
  proof -
    have "(2::rat) powi (d - 1) * of_int q \<le> 2 powi (d - 1) * 2 powi bitlen q"
      using Q(2) by (intro mult_left_mono) (simp_all add: less_imp_le)
    also have "\<dots> = 2 powi (bitlen p - 1)"
      by (simp add: d_def flip: power_int_add)
    also have "\<dots> \<le> of_int p" by (rule P(1))
    finally show ?thesis using qpos by (simp add: x pos_le_divide_eq)
  qed
  have hi: "x < 2 powi (d + 1)"
  proof -
    have "of_int p < (2::rat) powi bitlen p" by (rule P(2))
    also have "\<dots> = 2 powi (d + 1) * 2 powi (bitlen q - 1)"
      by (simp add: d_def flip: power_int_add)
    also have "\<dots> \<le> 2 powi (d + 1) * of_int q"
      using Q(1) by (intro mult_left_mono) simp_all
    finally show ?thesis using qpos by (simp add: x pos_divide_less_eq)
  qed
  show "2 powi ilog2 x \<le> x" using lo by (simp add: il)
  show "x < 2 powi (ilog2 x + 1)" using hi by (auto simp: il not_le)
qed


lemma pow2_le_iff: "(2::rat) powi m \<le> 2 powi n \<longleftrightarrow> m \<le> n"
proof
  assume "(2::rat) powi m \<le> 2 powi n"
  show "m \<le> n"
  proof (rule ccontr)
    assume "\<not> m \<le> n"
    then have "(2::rat) powi n < 2 powi m" by (intro power_int_strict_increasing) simp_all
    with \<open>(2::rat) powi m \<le> 2 powi n\<close> show False by simp
  qed
next
  assume "m \<le> n"
  then show "(2::rat) powi m \<le> 2 powi n" by (intro power_int_increasing) simp_all
qed

lemma pow2_less_iff: "(2::rat) powi m < 2 powi n \<longleftrightarrow> m < n"
  using pow2_le_iff [of n m] by (simp add: not_le [symmetric])

lemma ilog2_eqI:
  assumes "2 powi k \<le> x" "x < 2 powi (k + 1)"
  shows "ilog2 x = k"
proof -
  have "(0::rat) < 2 powi k" by simp
  with assms(1) have pos: "0 < x" by linarith
  note B = ilog2_bounds [OF pos]
  from B(1) assms(2) have "(2::rat) powi ilog2 x < 2 powi (k + 1)" by linarith
  then have 1: "ilog2 x < k + 1" by (simp add: pow2_less_iff)
  from assms(1) B(2) have "(2::rat) powi k < 2 powi (ilog2 x + 1)" by linarith
  then have 2: "k < ilog2 x + 1" by (simp add: pow2_less_iff)
  from 1 2 show ?thesis by simp
qed

lemma ilog2_ge: "0 < x \<Longrightarrow> 2 powi k \<le> x \<Longrightarrow> k \<le> ilog2 x"
proof -
  assume pos: "0 < x" and k: "2 powi k \<le> x"
  from k ilog2_bounds(2) [OF pos] have "(2::rat) powi k < 2 powi (ilog2 x + 1)" by linarith
  then have "k < ilog2 x + 1" by (simp add: pow2_less_iff)
  then show ?thesis by simp
qed

lemma ilog2_le: "0 < x \<Longrightarrow> x \<le> 2 powi k \<Longrightarrow> ilog2 x \<le> k"
proof -
  assume pos: "0 < x" and k: "x \<le> 2 powi k"
  from k ilog2_bounds(1) [OF pos] have "(2::rat) powi ilog2 x \<le> 2 powi k" by linarith
  then show ?thesis by (simp add: pow2_le_iff)
qed

lemma round_to_double_abs_error:
  assumes "0 < x"
  shows "\<bar>round_to_double x - x\<bar> \<le> 2 powi (max (ilog2 x - 52) (- 1074)) / 2"
proof -
  define e where "e = max (ilog2 x - 52) (- 1074)"
  have pe: "(0::rat) < 2 powi e" by simp
  have rd: "round_to_double x = of_int (round_half_even (x / 2 powi e)) * 2 powi e"
    using assms by (simp add: round_to_double_def e_def Let_def)
  have "round_to_double x - x = (of_int (round_half_even (x / 2 powi e)) - x / 2 powi e) * 2 powi e"
    using pe by (simp add: rd algebra_simps)
  then have "\<bar>round_to_double x - x\<bar>
               = \<bar>of_int (round_half_even (x / 2 powi e)) - x / 2 powi e\<bar> * 2 powi e"
    using pe by (simp add: abs_mult)
  also have "\<dots> \<le> 1 / 2 * 2 powi e"
    using round_half_even_error [of "x / 2 powi e"] pe by (intro mult_right_mono) simp_all
  finally show ?thesis by (simp add: e_def)
qed

lemma round_to_double_rel_error:
  assumes "0 < x" and "- 1022 \<le> ilog2 x"
  shows "\<bar>round_to_double x - x\<bar> \<le> x / 2 ^ 53"
proof -
  from assms(2) have e: "max (ilog2 x - 52) (- 1074) = ilog2 x - 52" by simp
  have "\<bar>round_to_double x - x\<bar> \<le> 2 powi (ilog2 x - 52) / 2"
    using round_to_double_abs_error [OF assms(1)] by (simp only: e)
  also have "\<dots> = 2 powi ilog2 x / 2 ^ 53"
    by (simp add: power_int_diff)
  also have "\<dots> \<le> x / 2 ^ 53"
    using ilog2_bounds(1) [OF assms(1)] by (simp add: divide_right_mono)
  finally show ?thesis .
qed

lemma round_to_double_nonneg: "0 \<le> x \<Longrightarrow> 0 \<le> round_to_double x"
proof -
  assume "0 \<le> x"
  have "0 \<le> round_half_even (x / 2 powi e)" for e
    using \<open>0 \<le> x\<close> by (intro round_half_even_ge) simp
  then show ?thesis by (simp add: round_to_double_def Let_def)
qed

lemma round_to_double_le_one:
  assumes "0 \<le> x" "x \<le> 1"
  shows "round_to_double x \<le> 1 + 1 / 2 ^ 53"
proof (cases "x = 0")
  case True
  then show ?thesis by (simp add: round_to_double_def)
next
  case False
  with assms have pos: "0 < x" by simp
  have "ilog2 x \<le> 0" using ilog2_le [OF pos, of 0] assms(2) by simp
  then have "max (ilog2 x - 52) (- 1074) \<le> - 52" by simp
  then have "(2::rat) powi (max (ilog2 x - 52) (- 1074)) \<le> 2 powi (- 52)"
    by (simp only: pow2_le_iff)
  with round_to_double_abs_error [OF pos]
  have "\<bar>round_to_double x - x\<bar> \<le> 2 powi (- 52) / 2" by linarith
  also have "\<dots> = 1 / 2 ^ 53" by (simp add: power_int_minus_divide)
  finally show ?thesis using assms(2) by linarith
qed


lemma nearest_integer_of_close:
  fixes n :: int and r t :: nat and Y :: rat
  assumes t: "0 < t" "t < 2 ^ 44"
    and near: "\<bar>of_int n - Y\<bar> \<le> 1 / 2"
    and close: "\<bar>Y - 100 * of_nat r / of_nat t\<bar> < 1 / 2 ^ 45"
  shows "\<bar>of_int n - 100 * of_nat r / of_nat t\<bar> \<le> (1 / 2 :: rat)"
proof -
  define P :: rat where "P = 100 * of_nat r / of_nat t"
  have tpos: "(0::rat) < of_nat t" using t(1) by simp
  have Pt: "P * of_nat t = 100 * of_nat r" using tpos by (simp add: P_def)
  have tle: "(2::rat) * of_nat t \<le> 2 ^ 45"
  proof -
    from t(2) have "2 * t \<le> 2 ^ 45" by simp
    then have "(of_nat (2 * t) :: rat) \<le> of_nat (2 ^ 45)" by (simp only: of_nat_le_iff)
    then show ?thesis by simp
  qed
  have close': "\<bar>Y - P\<bar> < 1 / 2 ^ 45" using close by (simp only: P_def)
  have gap: "d \<le> 0" if int: "d * (2 * of_nat t) = of_int k" and small: "d < 1 / 2 ^ 45"
    for d :: rat and k :: int
  proof (rule ccontr)
    assume "\<not> d \<le> 0"
    then have dpos: "0 < d" by simp
    then have "0 < d * (2 * of_nat t)" using tpos by simp
    then have "0 < k" by (simp add: int)
    then have "1 \<le> k" by simp
    then have "(1::rat) \<le> of_int k" by simp
    then have 1: "1 \<le> d * (2 * of_nat t)" by (simp add: int)
    have "d * (2 * of_nat t) \<le> d * 2 ^ 45"
      using tle dpos by (intro mult_left_mono) simp_all
    also have "\<dots> < 1 / 2 ^ 45 * 2 ^ 45"
      using small by (intro mult_strict_right_mono) simp_all
    also have "\<dots> = 1" by simp
    finally show False using 1 by simp
  qed
  have up: "of_int n - P - 1 / 2 \<le> 0"
  proof (rule gap)
    show "(of_int n - P - 1 / 2) * (2 * of_nat t)
            = of_int (2 * n * int t - 200 * int r - int t)"
      using Pt by (simp add: algebra_simps)
    show "of_int n - P - 1 / 2 < 1 / 2 ^ 45"
      using near close' by linarith
  qed
  have down: "P - of_int n - 1 / 2 \<le> 0"
  proof (rule gap)
    show "(P - of_int n - 1 / 2) * (2 * of_nat t)
            = of_int (200 * int r - 2 * n * int t - int t)"
      using Pt by (simp add: algebra_simps)
    show "P - of_int n - 1 / 2 < 1 / 2 ^ 45"
      using near close' by linarith
  qed
  from up down have "\<bar>of_int n - P\<bar> \<le> 1 / 2" by linarith
  then show ?thesis by (simp only: P_def)
qed

lemma percent_product_close:
  fixes r t :: nat
  assumes "0 < r" "r \<le> t" "t < 2 ^ 44"
  shows "\<bar>round_to_double (round_to_double (of_nat r / of_nat t) * 100)
           - 100 * of_nat r / of_nat t\<bar> < 1 / 2 ^ 45"
    and "round_to_double (of_nat r / of_nat t) \<le> 1 + 1 / 2 ^ 53"
    and "round_to_double (round_to_double (of_nat r / of_nat t) * 100) \<le> 101"
proof -
  define x :: rat where "x = of_nat r / of_nat t"
  define X where "X = round_to_double x"
  define y where "y = X * 100"
  define Y where "Y = round_to_double y"
  have tpos: "(0::rat) < of_nat t" using assms by simp
  have xpos: "0 < x" using assms by (simp add: x_def)
  have xle: "x \<le> 1" using assms tpos by (simp add: x_def)
  have xge: "1 / 2 ^ 44 \<le> x"
  proof -
    from assms(3) have "t \<le> 2 ^ 44" by simp
    then have "(of_nat t :: rat) \<le> of_nat (2 ^ 44)" by (simp only: of_nat_le_iff)
    then have "(of_nat t :: rat) \<le> 2 ^ 44" by simp
    moreover from assms(1) have "(1::rat) \<le> of_nat r" by simp
    ultimately have "1 * of_nat t \<le> of_nat r * (2 ^ 44 :: rat)"
      by (intro mult_mono) simp_all
    then show ?thesis using tpos by (simp add: x_def field_simps)
  qed
  have "(2::rat) powi (- 44) \<le> x" using xge by (simp add: power_int_minus_divide)
  then have "- 44 \<le> ilog2 x" using xpos by (intro ilog2_ge)
  then have X: "\<bar>X - x\<bar> \<le> x / 2 ^ 53"
    unfolding X_def using xpos by (intro round_to_double_rel_error) simp_all
  have X1: "\<bar>X - x\<bar> \<le> 1 / 2 ^ 53"
  proof -
    have "x / 2 ^ 53 \<le> 1 / 2 ^ 53" using xle by (intro divide_right_mono) simp_all
    with X show ?thesis by linarith
  qed
  have Xle: "X \<le> 1 + 1 / 2 ^ 53" using X1 xle by linarith
  have "x / 2 ^ 53 \<le> x / 2" using xpos by (intro divide_left_mono) simp_all
  with X have "x / 2 \<le> X" by linarith
  with xge have Xge: "1 / 2 ^ 45 \<le> X" by simp
  have ypos: "0 < y" using Xge by (simp add: y_def) 
  have "(2::rat) powi (- 45) \<le> y" using Xge by (simp add: y_def power_int_minus_divide)
  then have "- 45 \<le> ilog2 y" using ypos by (intro ilog2_ge)
  then have Y: "\<bar>Y - y\<bar> \<le> y / 2 ^ 53"
    unfolding Y_def using ypos by (intro round_to_double_rel_error) simp_all
  have yle: "y \<le> 101" using Xle by (simp add: y_def)
  have "y / 2 ^ 53 \<le> 101 / 2 ^ 53" using yle by (intro divide_right_mono) simp_all
  with Y have Y1: "\<bar>Y - y\<bar> \<le> 101 / 2 ^ 53" by linarith
  have "\<bar>Y - 100 * x\<bar> = \<bar>(Y - y) + 100 * (X - x)\<bar>"
    by (simp add: y_def algebra_simps)
  also have "\<dots> \<le> \<bar>Y - y\<bar> + \<bar>100 * (X - x)\<bar>" by (rule abs_triangle_ineq)
  also have "\<dots> = \<bar>Y - y\<bar> + 100 * \<bar>X - x\<bar>" by (simp only: abs_mult)
  also have "\<dots> \<le> 101 / 2 ^ 53 + 100 * (1 / 2 ^ 53)"
    using Y1 X1 by (intro add_mono mult_left_mono) simp_all
  also have "\<dots> < 1 / 2 ^ 45" by simp
  finally have "\<bar>Y - 100 * x\<bar> < 1 / 2 ^ 45" .
  then show "\<bar>round_to_double (round_to_double (of_nat r / of_nat t) * 100)
           - 100 * of_nat r / of_nat t\<bar> < 1 / 2 ^ 45"
    by (simp add: Y_def y_def X_def x_def)
  show "round_to_double (of_nat r / of_nat t) \<le> 1 + 1 / 2 ^ 53"
    using Xle by (simp add: X_def x_def)
  have "Y \<le> y + 101 / 2 ^ 53" using Y1 by linarith
  also have "\<dots> \<le> 100 * (1 + 1 / 2 ^ 53) + 101 / 2 ^ 53" using Xle by (simp add: y_def)
  also have "\<dots> \<le> 101" by simp
  finally show "round_to_double (round_to_double (of_nat r / of_nat t) * 100) \<le> 101"
    by (simp add: Y_def y_def X_def x_def)
qed

section \<open>Properties of ready_percentage\<close>

lemma round_half_even_eqI:
  assumes "\<bar>of_int n - x\<bar> < 1 / 2"
  shows "round_half_even x = n"
proof (cases "of_int n \<le> x")
  case True
  with assms have "x < of_int n + 1" by linarith
  with True have "\<lfloor>x\<rfloor> = n" by (intro floor_unique)
  moreover from assms True have "x - of_int n < 1 / 2" by linarith
  ultimately show ?thesis by (simp add: round_half_even_def)
next
  case False
  with assms have "of_int (n - 1) \<le> x" "x < of_int (n - 1) + 1" by simp_all
  then have f: "\<lfloor>x\<rfloor> = n - 1" by (intro floor_unique)
  from assms False have "1 / 2 < x - of_int (n - 1)" by simp
  with f show ?thesis by (simp add: round_half_even_def Let_def)
qed

lemma round_half_even_tie:
  assumes "x = of_int n + 1 / 2"
  shows "round_half_even x = (if even n then n else n + 1)"
proof -
  have "\<lfloor>x\<rfloor> = n" unfolding assms by (intro floor_unique) simp_all
  then show ?thesis by (simp add: round_half_even_def assms)
qed

lemma round_to_double_eqI:
  assumes "2 powi k \<le> x" "x < 2 powi (k + 1)" "- 1022 \<le> k"
    and "round_half_even (x / 2 powi (k - 52)) = m"
  shows "round_to_double x = of_int m * 2 powi (k - 52)"
proof -
  have "(0::rat) < 2 powi k" by simp
  with assms(1) have "x \<noteq> 0" by linarith
  moreover have "ilog2 x = k" using assms(1,2) by (rule ilog2_eqI)
  ultimately show ?thesis using assms(3,4) by (simp add: round_to_double_def Let_def)
qed

lemma round_to_double_upper:
  assumes "0 \<le> x" "x \<le> 2 powi k" "- 1022 \<le> k"
  shows "round_to_double x \<le> 2 powi k + 2 powi (k - 53)"
proof (cases "x = 0")
  case True
  then show ?thesis by (simp add: round_to_double_def)
next
  case False
  with assms have pos: "0 < x" by simp
  have "ilog2 x \<le> k" using pos assms(2) by (rule ilog2_le)
  with assms(3) have "max (ilog2 x - 52) (- 1074) \<le> k - 52" by simp
  then have "(2::rat) powi (max (ilog2 x - 52) (- 1074)) \<le> 2 powi (k - 52)"
    by (simp only: pow2_le_iff)
  with round_to_double_abs_error [OF pos]
  have "\<bar>round_to_double x - x\<bar> \<le> 2 powi (k - 52) / 2" by linarith
  also have "\<dots> = 2 powi (k - 53)" by (simp add: power_int_diff)
  finally show ?thesis using assms(2) by linarith
qed

lemma true_divide_ratio:
  assumes "0 < t" "r \<le> t"
  shows "true_divide r t = Inr (round_to_double (of_nat r / of_nat t))"
    and "0 \<le> round_to_double (of_nat r / of_nat t)"
    and "round_to_double (of_nat r / of_nat t) \<le> 1 + 1 / 2 ^ 53"
proof -
  have x: "(0::rat) \<le> of_nat r / of_nat t" "(of_nat r / of_nat t :: rat) \<le> 1"
    using assms by simp_all
  show nonneg: "0 \<le> round_to_double (of_nat r / of_nat t)"
    using x(1) by (rule round_to_double_nonneg)
  show le: "round_to_double (of_nat r / of_nat t) \<le> 1 + 1 / 2 ^ 53"
    using x by (rule round_to_double_le_one)
  have "(1 + 1 / 2 ^ 53 :: rat) < 2 ^ 1024" by simp
  with le have "\<not> 2 ^ 1024 \<le> round_to_double (of_nat r / of_nat t)" by linarith
  with assms(1) show "true_divide r t = Inr (round_to_double (of_nat r / of_nat t))"
    by (simp add: true_divide_def Let_def)
qed

lemma format_percent0_digits:
  assumes "0 \<le> x" "x \<le> 1 + 1 / 2 ^ 53"
  shows "format_percent0 x
           = str_nat (nat (round_half_even (round_to_double (x * 100)))) @ ''%''"
proof -
  have "x * 100 \<le> 2 powi 7" using assms(2) by simp
  moreover have "0 \<le> x * 100" using assms(1) by simp
  ultimately have "round_to_double (x * 100) \<le> 2 powi 7 + 2 powi (7 - 53)"
    by (intro round_to_double_upper) simp_all
  also have "\<dots> < 2 ^ 1024" by (simp add: power_int_minus_divide)
  finally show ?thesis by (simp add: format_percent0_def Let_def)
qed

lemma ready_percentage_eq:
  assumes "0 < total_count self"
  shows "ready_percentage self
           = Inr (str_nat (nat (round_half_even (round_to_double
                    (round_to_double (of_nat (ready_count self) / of_nat (total_count self))
                     * 100)))) @ ''%'')"
  using true_divide_ratio [OF assms ready_count_le_total [of self]]
  by (simp add: ready_percentage_def format_percent0_digits)

lemma category_with_counts:
  "ready_count (category_with r t) = r" "r \<le> t \<Longrightarrow> total_count (category_with r t) = t"
  by (simp_all add: ready_count_length category_with_def entity_with_ready_def total_count_def)

lemma ready_percentage_category_with:
  assumes "0 < t" "r \<le> t"
    and "round_to_double (of_nat r / of_nat t) = X"
    and "round_to_double (X * 100) = Y"
    and "round_half_even Y = int n"
  shows "ready_percentage (category_with r t) = Inr (str_nat n @ ''%'')"
  using assms by (simp add: ready_percentage_eq category_with_counts)

lemma percent_2_of_3: "ready_percentage (category_with 2 3) = Inr ''67%''"
proof -
  have "round_to_double (of_nat 2 / of_nat 3) = of_int 6004799503160661 * 2 powi (- 1 - 52)"
    by (rule round_to_double_eqI, simp_all add: power_int_minus_divide)
       (rule round_half_even_eqI, simp)
  then have X: "round_to_double (of_nat 2 / of_nat 3) = 6004799503160661 / 9007199254740992"
    by (simp add: power_int_minus_divide)
  have "round_to_double (6004799503160661 / 9007199254740992 * 100)
          = of_int 4691249611844266 * 2 powi (6 - 52)"
    by (rule round_to_double_eqI, simp_all add: power_int_minus_divide)
       (rule round_half_even_eqI, simp)
  then have Y: "round_to_double (6004799503160661 / 9007199254740992 * 100)
                  = 2345624805922133 / 35184372088832"
    by (simp add: power_int_minus_divide)
  have n: "round_half_even (2345624805922133 / 35184372088832) = int 67"
    by (rule round_half_even_eqI) simp
  have "ready_percentage (category_with 2 3) = Inr (str_nat 67 @ ''%'')"
    by (rule ready_percentage_category_with [OF _ _ X Y n]) simp_all
  then show ?thesis by simp
qed

lemma percent_1_of_8: "ready_percentage (category_with 1 8) = Inr ''12%''"
proof -
  have "round_to_double (of_nat 1 / of_nat 8) = of_int 4503599627370496 * 2 powi (- 3 - 52)"
    by (rule round_to_double_eqI, simp_all add: power_int_minus_divide)
       (rule round_half_even_eqI, simp)
  then have X: "round_to_double (of_nat 1 / of_nat 8) = 1 / 8"
    by (simp add: power_int_minus_divide)
  have "round_to_double (1 / 8 * 100)
          = of_int 7036874417766400 * 2 powi (3 - 52)"
    by (rule round_to_double_eqI, simp_all add: power_int_minus_divide)
       (rule round_half_even_eqI, simp)
  then have Y: "round_to_double (1 / 8 * 100)
                  = 25 / 2"
    by (simp add: power_int_minus_divide)
  have n: "round_half_even (25 / 2) = int 12"
    using round_half_even_tie [of "25 / 2" 12] by simp
  have "ready_percentage (category_with 1 8) = Inr (str_nat 12 @ ''%'')"
    by (rule ready_percentage_category_with [OF _ _ X Y n]) simp_all
  then show ?thesis by simp
qed

lemma percent_3_of_8: "ready_percentage (category_with 3 8) = Inr ''38%''"
proof -
  have "round_to_double (of_nat 3 / of_nat 8) = of_int 6755399441055744 * 2 powi (- 2 - 52)"
    by (rule round_to_double_eqI, simp_all add: power_int_minus_divide)
       (rule round_half_even_eqI, simp)
  then have X: "round_to_double (of_nat 3 / of_nat 8) = 3 / 8"
    by (simp add: power_int_minus_divide)
  have "round_to_double (3 / 8 * 100)
          = of_int 5277655813324800 * 2 powi (5 - 52)"
    by (rule round_to_double_eqI, simp_all add: power_int_minus_divide)
       (rule round_half_even_eqI, simp)
  then have Y: "round_to_double (3 / 8 * 100)
                  = 75 / 2"
    by (simp add: power_int_minus_divide)
  have n: "round_half_even (75 / 2) = int 38"
    using round_half_even_tie [of "75 / 2" 37] by simp
  have "ready_percentage (category_with 3 8) = Inr (str_nat 38 @ ''%'')"
    by (rule ready_percentage_category_with [OF _ _ X Y n]) simp_all
  then show ?thesis by simp
qed

lemma percent_115_of_200: "ready_percentage (category_with 115 200) = Inr ''57%''"
proof -
  have "round_to_double (of_nat 115 / of_nat 200) = of_int 5179139571476070 * 2 powi (- 1 - 52)"
    by (rule round_to_double_eqI, simp_all add: power_int_minus_divide)
       (rule round_half_even_eqI, simp)
  then have X: "round_to_double (of_nat 115 / of_nat 200) = 2589569785738035 / 4503599627370496"
    by (simp add: power_int_minus_divide)
  have "round_to_double (2589569785738035 / 4503599627370496 * 100)
          = of_int 8092405580431359 * 2 powi (5 - 52)"
    by (rule round_to_double_eqI, simp_all add: power_int_minus_divide)
       (rule round_half_even_eqI, simp)
  then have Y: "round_to_double (2589569785738035 / 4503599627370496 * 100)
                  = 8092405580431359 / 140737488355328"
    by (simp add: power_int_minus_divide)
  have n: "round_half_even (8092405580431359 / 140737488355328) = int 57"
    by (rule round_half_even_eqI) simp
  have "ready_percentage (category_with 115 200) = Inr (str_nat 57 @ ''%'')"
    by (rule ready_percentage_category_with [OF _ _ X Y n]) simp_all
  then show ?thesis by simp
qed

lemma percent_nearest:
  fixes r t :: nat
  assumes "0 < t" "r \<le> t" "t < 2 ^ 44"
  shows "0 \<le> round_half_even (round_to_double (round_to_double (of_nat r / of_nat t) * 100))"
    and "\<bar>of_int (round_half_even (round_to_double (round_to_double (of_nat r / of_nat t) * 100)))
          - 100 * of_nat r / of_nat t\<bar> \<le> (1 / 2 :: rat)"
proof -
  define Y where "Y = round_to_double (round_to_double (of_nat r / of_nat t) * 100)"
  have "0 \<le> round_to_double (of_nat r / of_nat t)"
    using assms(1,2) by (rule true_divide_ratio(2))
  then have "0 \<le> Y" unfolding Y_def by (intro round_to_double_nonneg) simp
  then have "0 \<le> round_half_even Y" by (intro round_half_even_ge) simp
  then show "0 \<le> round_half_even (round_to_double (round_to_double (of_nat r / of_nat t) * 100))"
    by (simp only: Y_def)
  have close: "\<bar>Y - 100 * of_nat r / of_nat t\<bar> < 1 / 2 ^ 45"
  proof (cases "r = 0")
    case True
    then show ?thesis by (simp add: Y_def round_to_double_def)
  next
    case False
    then have "0 < r" by simp
    then show ?thesis unfolding Y_def using assms(2,3) by (rule percent_product_close(1))
  qed
  have "\<bar>of_int (round_half_even Y) - 100 * of_nat r / of_nat t\<bar> \<le> (1 / 2 :: rat)"
    using assms(1,3) round_half_even_error [of Y] close by (rule nearest_integer_of_close)
  then show "\<bar>of_int (round_half_even (round_to_double (round_to_double (of_nat r / of_nat t) * 100)))
          - 100 * of_nat r / of_nat t\<bar> \<le> (1 / 2 :: rat)"
    by (simp only: Y_def)
qed

lemma standard_rounding_eqI:
  assumes "\<bar>of_int n - x\<bar> \<le> 1 / 2" and "\<forall>k::int. x \<noteq> of_int k + 1 / 2"
  shows "standard_rounding x = n"
proof -
  from assms(2) have "x \<noteq> of_int (n - 1) + 1 / 2" by blast
  then have "x \<noteq> of_int n - 1 / 2" by simp
  with assms(1) have "of_int n \<le> x + 1 / 2" "x + 1 / 2 < of_int n + 1"
    using assms(2) [rule_format, of n] by linarith+
  then show ?thesis unfolding standard_rounding_def by (rule floor_unique)
qed

text \<open>
  C4. A category with no entity has \<open>total_count = 0\<close> and its \<open>ready_percentage\<close>
  raises \<^verbatim>\<open>ZeroDivisionError\<close>; the \<open>ready_percentage\<close> of a category with at least one
  entity returns a string.
\<close>

theorem ready_percentage_division_by_zero:
  "(entities self = [] \<longrightarrow>
      total_count self = 0 \<and> ready_percentage self = Inl ZeroDivisionError)
   \<and> (entities self \<noteq> [] \<longrightarrow> (\<exists>s. ready_percentage self = Inr s))"
proof -
  have "ready_percentage self = Inl ZeroDivisionError" if "entities self = []"
    using that by (simp add: ready_percentage_def true_divide_def total_count_def)
  moreover have "\<exists>s. ready_percentage self = Inr s" if "entities self \<noteq> []"
  proof -
    from that have "0 < total_count self" by (simp add: total_count_def)
    then show ?thesis by (simp add: ready_percentage_eq)
  qed
  ultimately show ?thesis by (simp add: total_count_def)
qed

theorem ready_percentage_division_by_zero_witness:
  "ready_percentage category_empty = Inl ZeroDivisionError
   \<and> (\<exists>s. ready_percentage category_unresolved = Inr s)"
  using ready_percentage_division_by_zero [of category_empty]
    ready_percentage_division_by_zero [of category_unresolved]
  by (simp add: category_empty_def Category_init_def category_unresolved_def)

text \<open>
  C6, as stated, fails. With 1 entity ready of 8 the exact percentage is 12.5 and standard
  rounding gives 13, but \<open>ready_percentage\<close> is \<^verbatim>\<open>12%\<close>: the printing rounds a half to the
  even neighbour. Nor is it the exact percentage rounded half to even: with 115 ready of
  200 the exact percentage is 57.5, which both roundings take to 58, but the binary64
  product is just below 57.5 and \<open>ready_percentage\<close> is \<^verbatim>\<open>57%\<close>.
\<close>

theorem ready_percentage_standard_rounding_counterexample:
  "ready_count (category_with 1 8) = 1 \<and> total_count (category_with 1 8) = 8
   \<and> ready_percentage (category_with 1 8) = Inr ''12%''
   \<and> standard_percentage 1 8 = ''13%''
   \<and> ready_count (category_with 115 200) = 115 \<and> total_count (category_with 115 200) = 200
   \<and> ready_percentage (category_with 115 200) = Inr ''57%''
   \<and> standard_percentage 115 200 = ''58%''
   \<and> half_even_percentage 115 200 = ''58%''"
proof -
  have "standard_rounding (100 * of_nat 1 / of_nat 8) = 13"
    unfolding standard_rounding_def by (rule floor_unique) simp_all
  then have a: "standard_percentage 1 8 = ''13%''"
    by (simp add: standard_percentage_def)
  have "standard_rounding (100 * of_nat 115 / of_nat 200) = 58"
    unfolding standard_rounding_def by (rule floor_unique) simp_all
  then have b: "standard_percentage 115 200 = ''58%''"
    by (simp add: standard_percentage_def)
  have "round_half_even (100 * of_nat 115 / of_nat 200) = 58"
    using round_half_even_tie [of "100 * of_nat 115 / of_nat 200" 57] by simp
  then have c: "half_even_percentage 115 200 = ''58%''"
    by (simp add: half_even_percentage_def)
  have d: "ready_count (category_with 1 8) = 1" "ready_count (category_with 115 200) = 115"
    by (rule category_with_counts(1))+
  have e: "total_count (category_with 1 8) = 8" "total_count (category_with 115 200) = 200"
    by (rule category_with_counts(2), simp)+
  from a b c d e percent_1_of_8 percent_115_of_200 show ?thesis by blast
qed

text \<open>
  C6, amended. For every non-empty category of fewer than \<open>2 ^ 44\<close> entities,
  \<open>ready_percentage\<close> is the decimal digits of an integer \<open>n\<close> followed by \<^verbatim>\<open>%\<close>, with no
  decimal places, where \<open>n \<le> 100\<close> is an integer nearest to the exact percentage
  \<open>100 * ready_count / total_count\<close>. So it is the standard rounding of the exact
  percentage whenever that is not halfway between two integers; at a half, either
  neighbour may be printed (1 of 8 gives \<^verbatim>\<open>12%\<close>, 3 of 8 gives \<^verbatim>\<open>38%\<close>, 115 of 200 gives
  \<^verbatim>\<open>57%\<close>). 2 ready of 3 gives \<^verbatim>\<open>67%\<close>.
\<close>

theorem ready_percentage_nearest:
  assumes "0 < total_count self" and "total_count self < 2 ^ 44"
  shows "\<exists>n \<le> 100.
           ready_percentage self = Inr (str_nat n @ ''%'')
           \<and> \<bar>of_nat n - 100 * of_nat (ready_count self) / of_nat (total_count self)\<bar>
               \<le> (1 / 2 :: rat)
           \<and> ((\<forall>k::int. 100 * of_nat (ready_count self) / of_nat (total_count self)
                           \<noteq> (of_int k + 1 / 2 :: rat))
                \<longrightarrow> ready_percentage self
                      = Inr (standard_percentage (ready_count self) (total_count self)))"
proof -
  define P :: rat where "P = 100 * of_nat (ready_count self) / of_nat (total_count self)"
  define m where "m = round_half_even (round_to_double
                    (round_to_double (of_nat (ready_count self) / of_nat (total_count self)) * 100))"
  define n where "n = nat m"
  have le: "ready_count self \<le> total_count self" by (rule ready_count_le_total)
  have m0: "0 \<le> m" unfolding m_def using assms(1) le assms(2) by (rule percent_nearest(1))
  have near: "\<bar>of_int m - P\<bar> \<le> 1 / 2"
    unfolding m_def P_def using assms(1) le assms(2) by (rule percent_nearest(2))
  have mn: "(of_int m :: rat) = of_nat n" using m0 by (simp add: n_def)
  have eq: "ready_percentage self = Inr (str_nat n @ ''%'')"
    using ready_percentage_eq [OF assms(1)] by (simp add: n_def m_def)
  have "P \<le> 100"
  proof -
    have "(of_nat (ready_count self) / of_nat (total_count self) :: rat) \<le> 1"
      using le assms(1) by simp
    moreover have "P = 100 * (of_nat (ready_count self) / of_nat (total_count self))"
      by (simp add: P_def)
    ultimately show ?thesis by linarith
  qed
  with near have "(of_int m :: rat) < 101" by linarith
  then have "(of_int m :: rat) < of_int 101" by simp
  then have "m < 101" by (simp only: of_int_less_iff)
  then have n100: "n \<le> 100" by (simp add: n_def)
  have std: "ready_percentage self
               = Inr (standard_percentage (ready_count self) (total_count self))"
    if "\<forall>k::int. P \<noteq> of_int k + 1 / 2"
  proof -
    have "standard_rounding P = m" using near that by (rule standard_rounding_eqI)
    then show ?thesis by (simp add: eq standard_percentage_def n_def P_def)
  qed
  from n100 eq near std show ?thesis unfolding mn P_def by blast
qed

theorem ready_percentage_nearest_witness:
  "ready_percentage (category_with 2 3) = Inr ''67%''
   \<and> (\<exists>n \<le> 100. ready_percentage (category_with 2 3) = Inr (str_nat n @ ''%'')
         \<and> \<bar>of_nat n - 100 * of_nat 2 / of_nat 3\<bar> \<le> (1 / 2 :: rat))"
proof -
  have c: "ready_count (category_with 2 3) = 2" "total_count (category_with 2 3) = 3"
    by (simp_all add: category_with_counts)
  have "0 < total_count (category_with 2 3)" "total_count (category_with 2 3) < 2 ^ 44"
    by (simp_all add: c)
  then show ?thesis
    using ready_percentage_nearest [of "category_with 2 3"] percent_2_of_3
    unfolding c by blast
qed

section \<open>Properties of registration\<close>

lemma map_entry_keys: "map fst (AList.map_entry k f xs) = map fst xs"
  by (induction xs) auto

lemma contains_keys: "contains d k \<longleftrightarrow> k \<in> set (map fst d)"
  by (simp add: contains_def map_of_eq_None_iff)

lemma CountryData_register_entities:
  "category_entities (CountryData_register cd e) g
     = category_entities cd g @ (if g = Entity.category e then [e] else [])"
  by (auto simp: category_entities_def CountryData_register_def contains_def Let_def
        AList.map_of_map_entry AList.update_conv' Category_register_def Category_init_def
        split: option.splits)

lemma CountryData_register_keys:
  "map fst (categories (CountryData_register cd e))
     = map fst (categories cd)
       @ (if Entity.category e \<in> set (map fst (categories cd)) then [] else [Entity.category e])"
  by (simp add: CountryData_register_def Let_def map_entry_keys AList.update_keys contains_keys)

lemma CountryData_init_entities: "category_entities (CountryData_init c) g = []"
  by (simp add: category_entities_def CountryData_init_def)

lemma Source_register_entities:
  "entities_at (Source_register src e) c g
     = entities_at src c g @ (if c = country e \<and> g = Entity.category e then [e] else [])"
  by (auto simp: entities_at_def Source_register_def contains_def Let_def
        AList.map_of_map_entry AList.update_conv' CountryData_register_entities
        CountryData_init_entities
        split: option.splits)

lemma Source_register_country_keys:
  "country_keys (Source_register src e)
     = country_keys src @ (if country e \<in> set (country_keys src) then [] else [country e])"
  by (simp add: country_keys_def Source_register_def Let_def map_entry_keys AList.update_keys
        contains_keys)

lemma Source_register_category_keys:
  "prefix (category_keys src c) (category_keys (Source_register src e) c)"
  by (auto simp: category_keys_def Source_register_def contains_def Let_def
        AList.map_of_map_entry AList.update_conv' CountryData_register_keys
        split: option.splits)

lemma foldl_Source_register_entities:
  "entities_at (foldl Source_register src es) c g
     = entities_at src c g @ filter (\<lambda>e. country e = c \<and> Entity.category e = g) es"
  by (induction es arbitrary: src) (auto simp: Source_register_entities)

lemma foldl_Source_register_country_keys:
  "prefix (country_keys src) (country_keys (foldl Source_register src es))"
proof (induction es arbitrary: src)
  case Nil
  show ?case by simp
next
  case (Cons e es)
  have "prefix (country_keys src) (country_keys (Source_register src e))"
    by (simp add: Source_register_country_keys)
  with Cons [of "Source_register src e"] show ?case
    by (auto intro: prefix_order.trans)
qed

lemma foldl_Source_register_category_keys:
  "prefix (category_keys src c) (category_keys (foldl Source_register src es) c)"
proof (induction es arbitrary: src)
  case Nil
  show ?case by simp
next
  case (Cons e es)
  with Source_register_category_keys [of src c e] show ?case
    by (auto intro: prefix_order.trans)
qed

lemma extend_from_json_foldl:
  "fst (extend_from_json src js) = foldl Source_register src (entities_built js)"
  by (induction js arbitrary: src) (auto split: sum.splits)

lemma extend_from_json_append:
  "snd (extend_from_json src js) = None \<Longrightarrow>
     extend_from_json (fst (extend_from_json src js)) js' = extend_from_json src (js @ js')"
  by (induction js arbitrary: src) (auto split: sum.splits)

lemma extend_from_json_ok:
  "snd (extend_from_json src js) = None \<longleftrightarrow> map Entity_from_json js = map Inr (entities_built js)"
  by (induction js arbitrary: src) (auto split: sum.splits)

text \<open>
  C7. Registration keeps what is there, in its order. After
  \<^verbatim>\<open>extend_from_json\<close> on any source and any records, whether it returned or raised, the
  entity sequence under every country code and category tag is the sequence that was there
  followed by the entities built from the records of that country and category, in the
  order of the records; the country keys and the category keys that were there are still
  there, in their places, new ones after them. A call that returned, followed by a second
  call, is the one call on the two record lists in a row. \<^verbatim>\<open>CountryData.register\<close> appends
  the entity to the sequence of its category and changes no other sequence.
\<close>

theorem registration_preserves_order:
  "entities_at (fst (extend_from_json src js)) c g
     = entities_at src c g
       @ filter (\<lambda>e. country e = c \<and> Entity.category e = g) (entities_built js)
   \<and> prefix (country_keys src) (country_keys (fst (extend_from_json src js)))
   \<and> prefix (category_keys src c) (category_keys (fst (extend_from_json src js)) c)
   \<and> (snd (extend_from_json src js) = None \<longrightarrow>
        map Entity_from_json js = map Inr (entities_built js)
        \<and> extend_from_json (fst (extend_from_json src js)) js'
            = extend_from_json src (js @ js'))
   \<and> category_entities (CountryData_register cd e) g
       = category_entities cd g @ (if g = Entity.category e then [e] else [])
   \<and> prefix (map fst (categories cd)) (map fst (categories (CountryData_register cd e)))"
proof -
  have "prefix (map fst (categories cd)) (map fst (categories (CountryData_register cd e)))"
    by (simp add: CountryData_register_keys)
  moreover have "snd (extend_from_json src js) = None \<Longrightarrow>
                   map Entity_from_json js = map Inr (entities_built js)"
    by (simp add: extend_from_json_ok)
  ultimately show ?thesis
    by (simp add: extend_from_json_foldl foldl_Source_register_entities
          foldl_Source_register_country_keys foldl_Source_register_category_keys
          extend_from_json_append [unfolded extend_from_json_foldl]
          CountryData_register_entities)
qed

lemma extend_from_json_example:
  "extend_from_json Source_init records_example = (source_example, None)"
  by (simp add: Source_init_def records_example_def source_example_def record_of_def
        entity_of_def Entity_from_json_def getitem_def
        get_default_def Source_register_def contains_def CountryData_init_def
        CountryData_register_def Category_init_def Category_register_def Host_init_def Let_def)

theorem registration_preserves_order_witness:
  "snd (extend_from_json Source_init records_example) = None
   \<and> entities_at (fst (extend_from_json Source_init records_example)) ''it'' ''bank''
       = [entity_of ''it'' ''bank'' ''a.example'', entity_of ''it'' ''bank'' ''c.example'']
   \<and> extend_from_json (fst (extend_from_json Source_init records_example)) records_example
       = extend_from_json Source_init (records_example @ records_example)"
proof -
  have ok: "snd (extend_from_json Source_init records_example) = None"
    by (simp add: extend_from_json_example)
  have at: "entities_at (fst (extend_from_json Source_init records_example)) ''it'' ''bank''
              = [entity_of ''it'' ''bank'' ''a.example'', entity_of ''it'' ''bank'' ''c.example'']"
    by (simp add: extend_from_json_example source_example_def entities_at_def
          category_entities_def)
  from ok
    registration_preserves_order
      [of Source_init records_example "''it''" "''bank''" records_example
          "CountryData_init ''it''" "entity_of ''it'' ''bank'' ''a.example''"]
  have "extend_from_json (fst (extend_from_json Source_init records_example)) records_example
          = extend_from_json Source_init (records_example @ records_example)"
    by blast
  with ok at show ?thesis by blast
qed

section \<open>Properties of resolve_all\<close>

lemma result_cases:
  assumes "\<And>y t. r = Inr (y, t) \<longleftrightarrow> P \<and> y = a \<and> t = b"
  shows "P \<Longrightarrow> r = Inr (a, b)" and "\<not> P \<Longrightarrow> \<exists>e. r = Inl e"
proof -
  show "P \<Longrightarrow> r = Inr (a, b)" using assms [of a b] by simp
  show "\<exists>e. r = Inl e" if "\<not> P"
  proof (cases r)
    case (Inl e)
    then show ?thesis by blast
  next
    case (Inr p)
    obtain y t where "p = (y, t)" by (cases p)
    with Inr assms [of y t] that show ?thesis by simp
  qed
qed

lemma on_value_iff:
  assumes "\<And>v' t. f (snd kv) = Inr (v', t) \<longleftrightarrow> P \<and> v' = a \<and> t = b"
  shows "on_value f kv = Inr (kv', t) \<longleftrightarrow> P \<and> kv' = (fst kv, a) \<and> t = b"
proof (cases P)
  case True
  then have "f (snd kv) = Inr (a, b)" by (rule result_cases(1) [OF assms])
  with True show ?thesis by (auto simp: on_value_def)
next
  case False
  then obtain e where "f (snd kv) = Inl e" using result_cases(2) [OF assms] by blast
  with False show ?thesis by (simp add: on_value_def)
qed

lemma Entity_resolve_answerable_iff:
  "Entity_resolve resolver e = Inr (e', t) \<longleftrightarrow>
     answerable resolver e \<and> e' = resolved_entity resolver e \<and> t = entity_events resolver e"
  by (simp add: Entity_resolve_iff answerable_def)

lemma Category_resolve_entities_iff:
  "Category_resolve_entities resolver cat = Inr (cat', t) \<longleftrightarrow>
     (\<forall>e \<in> set (entities cat). answerable resolver e)
     \<and> cat' = resolved_category resolver cat
     \<and> t = concat (map (entity_events resolver) (entities cat))"
proof -
  have g: "gather (Entity_resolve resolver) (entities cat) = Inr (es, tr) \<longleftrightarrow>
             (\<forall>e \<in> set (entities cat). answerable resolver e)
             \<and> es = map (resolved_entity resolver) (entities cat)
             \<and> tr = concat (map (entity_events resolver) (entities cat))" for es tr
    by (rule gather_iff [where P = "answerable resolver" and g = "resolved_entity resolver"
          and ev = "entity_events resolver"]) (rule Entity_resolve_answerable_iff)
  show ?thesis
  proof (cases "\<forall>e \<in> set (entities cat). answerable resolver e")
    case True
    then have "gather (Entity_resolve resolver) (entities cat)
                 = Inr (map (resolved_entity resolver) (entities cat),
                        concat (map (entity_events resolver) (entities cat)))"
      by (rule result_cases(1) [OF g])
    then have "Category_resolve_entities resolver cat
                 = Inr (resolved_category resolver cat,
                        concat (map (entity_events resolver) (entities cat)))"
      by (simp add: Category_resolve_entities_def resolved_category_def)
    with True show ?thesis by auto
  next
    case False
    then obtain e where "gather (Entity_resolve resolver) (entities cat) = Inl e"
      using result_cases(2) [OF g] by blast
    then have "Category_resolve_entities resolver cat = Inl e"
      by (simp add: Category_resolve_entities_def)
    with False show ?thesis by simp
  qed
qed

lemma CountryData_resolve_entities_iff:
  "CountryData_resolve_entities resolver cdata = Inr (cdata', t) \<longleftrightarrow>
     (\<forall>kv \<in> set (categories cdata). \<forall>e \<in> set (entities (snd kv)). answerable resolver e)
     \<and> cdata' = resolved_country resolver cdata
     \<and> t = concat (map (\<lambda>kv. concat (map (entity_events resolver) (entities (snd kv))))
                     (categories cdata))"
proof -
  let ?P = "\<lambda>kv :: string \<times> Category. \<forall>e \<in> set (entities (snd kv)). answerable resolver e"
  let ?g = "\<lambda>kv :: string \<times> Category. (fst kv, resolved_category resolver (snd kv))"
  let ?ev = "\<lambda>kv :: string \<times> Category.
               concat (map (entity_events resolver) (entities (snd kv)))"
  have v: "on_value (Category_resolve_entities resolver) kv = Inr (kv', tr) \<longleftrightarrow>
             ?P kv \<and> kv' = ?g kv \<and> tr = ?ev kv"
    for kv kv' :: "string \<times> Category" and tr
    by (rule on_value_iff) (rule Category_resolve_entities_iff)
  have g: "gather (on_value (Category_resolve_entities resolver)) (categories cdata)
             = Inr (cs, tr) \<longleftrightarrow>
             (\<forall>kv \<in> set (categories cdata). ?P kv)
             \<and> cs = map ?g (categories cdata)
             \<and> tr = concat (map ?ev (categories cdata))" for cs tr
    by (rule gather_iff [where P = ?P and g = ?g and ev = ?ev]) (rule v)
  show ?thesis
  proof (cases "\<forall>kv \<in> set (categories cdata). ?P kv")
    case True
    then have "gather (on_value (Category_resolve_entities resolver)) (categories cdata)
                 = Inr (map ?g (categories cdata), concat (map ?ev (categories cdata)))"
      by (rule result_cases(1) [OF g])
    then have "CountryData_resolve_entities resolver cdata
                 = Inr (resolved_country resolver cdata, concat (map ?ev (categories cdata)))"
      by (simp add: CountryData_resolve_entities_def resolved_country_def case_prod_unfold)
    with True show ?thesis by auto
  next
    case False
    then obtain e where
      "gather (on_value (Category_resolve_entities resolver)) (categories cdata) = Inl e"
      using result_cases(2) [OF g] by blast
    then have "CountryData_resolve_entities resolver cdata = Inl e"
      by (simp add: CountryData_resolve_entities_def)
    with False show ?thesis by simp
  qed
qed

lemma concat_map_concat_map:
  "concat (map f (concat (map g xs))) = concat (map (\<lambda>x. concat (map f (g x))) xs)"
  by (induction xs) simp_all

lemma set_all_entities:
  "set (all_entities src)
     = (\<Union>kv \<in> set (countries_data src). \<Union>kv' \<in> set (categories (snd kv)). set (entities (snd kv')))"
  by (auto simp: all_entities_def case_prod_unfold)

lemma resolve_all_iff:
  "resolve_all resolver now self = Inr (src, t) \<longleftrightarrow>
     (\<forall>e \<in> set (all_entities self). answerable resolver e)
     \<and> src = resolved_source resolver now self
     \<and> t = concat (map (entity_events resolver) (all_entities self)) @ [ClockRead]"
proof -
  let ?P = "\<lambda>kv :: string \<times> CountryData.
              \<forall>kv' \<in> set (categories (snd kv)).
                \<forall>e \<in> set (entities (snd kv')). answerable resolver e"
  let ?g = "\<lambda>kv :: string \<times> CountryData. (fst kv, resolved_country resolver (snd kv))"
  let ?ev = "\<lambda>kv :: string \<times> CountryData.
               concat (map (\<lambda>kv'. concat (map (entity_events resolver) (entities (snd kv'))))
                         (categories (snd kv)))"
  have v: "on_value (CountryData_resolve_entities resolver) kv = Inr (kv', tr) \<longleftrightarrow>
             ?P kv \<and> kv' = ?g kv \<and> tr = ?ev kv"
    for kv kv' :: "string \<times> CountryData" and tr
    by (rule on_value_iff) (rule CountryData_resolve_entities_iff)
  have g: "gather (on_value (CountryData_resolve_entities resolver)) (countries_data self)
             = Inr (cd, tr) \<longleftrightarrow>
             (\<forall>kv \<in> set (countries_data self). ?P kv)
             \<and> cd = map ?g (countries_data self)
             \<and> tr = concat (map ?ev (countries_data self))" for cd tr
    by (rule gather_iff [where P = ?P and g = ?g and ev = ?ev]) (rule v)
  have all: "(\<forall>kv \<in> set (countries_data self). ?P kv)
               \<longleftrightarrow> (\<forall>e \<in> set (all_entities self). answerable resolver e)"
    by (auto simp: set_all_entities)
  have ev: "concat (map ?ev (countries_data self))
              = concat (map (entity_events resolver) (all_entities self))"
    by (simp add: all_entities_def case_prod_unfold concat_map_concat_map)
  show ?thesis
  proof (cases "\<forall>kv \<in> set (countries_data self). ?P kv")
    case True
    then have "gather (on_value (CountryData_resolve_entities resolver)) (countries_data self)
                 = Inr (map ?g (countries_data self), concat (map ?ev (countries_data self)))"
      by (rule result_cases(1) [OF g])
    then have "resolve_all resolver now self
                 = Inr (resolved_source resolver now self,
                        concat (map ?ev (countries_data self)) @ [ClockRead])"
      by (simp add: resolve_all_def resolved_source_def case_prod_unfold)
    then have "resolve_all resolver now self
                 = Inr (resolved_source resolver now self,
                        concat (map (entity_events resolver) (all_entities self)) @ [ClockRead])"
      by (simp only: ev)
    moreover from True have "\<forall>e \<in> set (all_entities self). answerable resolver e"
      unfolding all .
    ultimately show ?thesis by auto
  next
    case False
    then obtain e where
      "gather (on_value (CountryData_resolve_entities resolver)) (countries_data self) = Inl e"
      using result_cases(2) [OF g] by blast
    then have "resolve_all resolver now self = Inl e"
      by (simp add: resolve_all_def)
    moreover from False have "\<not> (\<forall>e \<in> set (all_entities self). answerable resolver e)"
      unfolding all .
    ultimately show ?thesis by simp
  qed
qed


lemma all_entities_resolved_source:
  "all_entities (resolved_source resolver now src)
     = map (resolved_entity resolver) (all_entities src)"
  by (simp add: all_entities_def resolved_source_def resolved_country_def resolved_category_def
        map_concat case_prod_unfold comp_def)

lemma keys_resolved_source:
  "country_keys (resolved_source resolver now src) = country_keys src"
  "category_keys (resolved_source resolver now src) c = category_keys src c"
proof -
  show "country_keys (resolved_source resolver now src) = country_keys src"
    by (simp add: country_keys_def resolved_source_def case_prod_unfold comp_def)
  have "map_of (countries_data (resolved_source resolver now src)) c
          = map_option (resolved_country resolver) (map_of (countries_data src) c)"
    by (simp add: resolved_source_def map_of_map)
  then show "category_keys (resolved_source resolver now src) c = category_keys src c"
    by (cases "map_of (countries_data src) c")
       (simp_all add: category_keys_def resolved_country_def case_prod_unfold comp_def)
qed

lemma ClockRead_not_in_entity_events: "ClockRead \<notin> set (entity_events resolver e)"
proof -
  have "ClockRead \<notin> set (host_events resolver h)" for h
    by (cases "resolver (Host.name h) A_record"; cases "resolver (Host.name h) AAAA_record")
       (simp_all add: host_events_def ipv4_events_def ipv6_events_def)
  then show ?thesis by (simp add: entity_events_def)
qed

text \<open>
  C5. If every query of every host of the tree ends in results or a DNS error,
  \<^verbatim>\<open>resolve_all\<close> returns. Whenever it returns, \<open>last_resolved\<close> is the timestamp read,
  the tree has the same countries and categories, every entity of it is the resolved form
  of the entity that was there, so its \<open>ipv6_ready\<close> is set and both flags of each of its
  hosts are definite, and the calls made are those of all the entities followed by the one
  reading of the clock: the clock is read after every resolution and not before.
\<close>

theorem resolve_all_resolves_everything:
  "((\<forall>e \<in> set (all_entities self). answerable resolver e) \<longrightarrow>
      (\<exists>src tr. resolve_all resolver now self = Inr (src, tr)))
   \<and> (\<forall>src tr. resolve_all resolver now self = Inr (src, tr) \<longrightarrow>
         last_resolved src = Some now
         \<and> country_keys src = country_keys self
         \<and> (\<forall>c. category_keys src c = category_keys self c)
         \<and> all_entities src = map (resolved_entity resolver) (all_entities self)
         \<and> (\<forall>e \<in> set (all_entities src).
               ipv6_ready e \<noteq> None \<and> (\<forall>h \<in> set (owned_hosts e). definite h))
         \<and> tr = concat (map (entity_events resolver) (all_entities self)) @ [ClockRead]
         \<and> ClockRead \<notin> set (butlast tr))"
proof -
  let ?src = "resolved_source resolver now self"
  let ?tr = "concat (map (entity_events resolver) (all_entities self)) @ [ClockRead]"
  have returns: "\<exists>src tr. resolve_all resolver now self = Inr (src, tr)"
    if "\<forall>e \<in> set (all_entities self). answerable resolver e"
    using that resolve_all_iff [of resolver now self ?src ?tr] by blast
  have settled: "ipv6_ready e \<noteq> None \<and> (\<forall>h \<in> set (owned_hosts e). definite h)"
    if "e \<in> set (all_entities ?src)" for e
  proof -
    from that obtain e0 where "e = resolved_entity resolver e0"
      by (auto simp: all_entities_resolved_source)
    then show ?thesis
      using resolved_entity_ready [of resolver e0] resolved_entity_definite [of resolver e0]
      by simp
  qed
  have "ClockRead \<notin> set (concat (map (entity_events resolver) (all_entities self)))"
    by (simp add: ClockRead_not_in_entity_events)
  then have clock: "ClockRead \<notin> set (butlast ?tr)" by (simp del: set_concat)
  have stamp: "last_resolved ?src = Some now"
    by (simp add: resolved_source_def)
  have after: "last_resolved src = Some now
         \<and> country_keys src = country_keys self
         \<and> (\<forall>c. category_keys src c = category_keys self c)
         \<and> all_entities src = map (resolved_entity resolver) (all_entities self)
         \<and> (\<forall>e \<in> set (all_entities src).
               ipv6_ready e \<noteq> None \<and> (\<forall>h \<in> set (owned_hosts e). definite h))
         \<and> tr = ?tr
         \<and> ClockRead \<notin> set (butlast tr)"
    if "resolve_all resolver now self = Inr (src, tr)" for src tr
  proof -
    from that have src: "src = ?src" and tr: "tr = ?tr"
      by (simp_all add: resolve_all_iff)
    show ?thesis
      unfolding src tr
      using stamp settled clock keys_resolved_source [of resolver now self]
        all_entities_resolved_source [of resolver now self]
      by blast
  qed
  from returns after show ?thesis by blast
qed

theorem resolve_all_resolves_everything_witness:
  "\<exists>src tr. resolve_all resolver_v6_only 7 source_single = Inr (src, tr)
     \<and> last_resolved src = Some 7
     \<and> (\<forall>e \<in> set (all_entities src).
           ipv6_ready e \<noteq> None \<and> (\<forall>h \<in> set (owned_hosts e). definite h))
     \<and> ClockRead \<notin> set (butlast tr)"
proof -
  have "\<forall>e \<in> set (all_entities source_single). answerable resolver_v6_only e"
    by (simp add: all_entities_def source_single_def answerable_def owned_hosts_def
          entity_of_def dns_only_def dns_outcome_def resolver_v6_only_def)
  with resolve_all_resolves_everything [of source_single resolver_v6_only 7]
  show ?thesis by blast
qed

end
